theory Spec2Isabelle
  imports Main "HOL-Library.Sublist"
begin

section \<open>Decoded JSON values and the Python operations the bot applies to them\<close>

text \<open>
  Everything the bot reads from the MCP server is a value decoded by \<open>json.loads\<close>: the
  response envelope, the tool result, the inner payload, each message. The source never
  converts them to typed records, so the model keeps them as decoded JSON values and writes
  out what each Python operation does on every kind of value, including the exception it
  raises. A JSON object is the list of its items, each key occurring once. Numbers are
  integers (no payload of the protocol carries a fraction).
\<close>

datatype json =
    JNull
  | JBool bool
  | JNum int
  | JStr string
  | JArr "json list"
  | JObj "(string \<times> json) list"

text \<open>
  The exceptions of the source. All of them are subclasses of \<open>Exception\<close>, so each is
  caught by an \<open>except Exception\<close> clause. \<open>MCPError v\<close> is the
  \<open>Exception(f"MCP Error: {response['error']}")\<close> of \<open>_send_request\<close>, with the server's
  error object. \<open>StartupError\<close> stands for whatever \<open>_ensure_model_available\<close> or
  \<open>create_subprocess_exec\<close> raise.
\<close>

datatype error =
    RuntimeError
  | JSONDecodeError
  | MCPError json
  | KeyError string
  | IndexError
  | TypeError
  | AttributeError
  | ConnectionResetError
  | StartupError string

definition and_then :: "error + 'a \<Rightarrow> ('a \<Rightarrow> error + 'b) \<Rightarrow> error + 'b" where
  "and_then r f = (case r of Inl e \<Rightarrow> Inl e | Inr x \<Rightarrow> f x)"

text \<open>Truth value of a decoded value, as \<open>if not messages\<close> and \<open>params or {}\<close> test it.\<close>

fun truthy :: "json \<Rightarrow> bool" where
  "truthy JNull = False"
| "truthy (JBool b) = b"
| "truthy (JNum n) = (n \<noteq> 0)"
| "truthy (JStr s) = (s \<noteq> [])"
| "truthy (JArr xs) = (xs \<noteq> [])"
| "truthy (JObj kvs) = (kvs \<noteq> [])"

text \<open>\<open>d.get(k, default)\<close>: only a dict has the method.\<close>

fun dict_get :: "json \<Rightarrow> string \<Rightarrow> json \<Rightarrow> error + json" where
  "dict_get (JObj kvs) k d = Inr (case map_of kvs k of None \<Rightarrow> d | Some v \<Rightarrow> v)"
| "dict_get _ k d = Inl AttributeError"

text \<open>\<open>d[k]\<close> for a string key \<open>k\<close>.\<close>

fun getitem :: "json \<Rightarrow> string \<Rightarrow> error + json" where
  "getitem (JObj kvs) k = (case map_of kvs k of None \<Rightarrow> Inl (KeyError k) | Some v \<Rightarrow> Inr v)"
| "getitem _ k = Inl TypeError"

text \<open>\<open>x[0]\<close> and \<open>x[-1]\<close>.\<close>

fun first_item :: "json \<Rightarrow> error + json" where
  "first_item (JArr []) = Inl IndexError"
| "first_item (JArr (x # xs)) = Inr x"
| "first_item (JStr []) = Inl IndexError"
| "first_item (JStr (c # cs)) = Inr (JStr [c])"
| "first_item (JObj kvs) = Inl (KeyError ''0'')"
| "first_item _ = Inl TypeError"

fun last_item :: "json \<Rightarrow> error + json" where
  "last_item (JArr xs) = (if xs = [] then Inl IndexError else Inr (last xs))"
| "last_item (JStr s) = (if s = [] then Inl IndexError else Inr (JStr [last s]))"
| "last_item (JObj kvs) = Inl (KeyError ''-1'')"
| "last_item _ = Inl TypeError"

text \<open>\<open>k in x\<close> for a string \<open>k\<close>: a key of a dict, an element of a list, a substring of a string.\<close>

fun infix_of :: "string \<Rightarrow> string \<Rightarrow> bool" where
  "infix_of k [] = (k = [])"
| "infix_of k (c # cs) = (take (length k) (c # cs) = k \<or> infix_of k cs)"

fun contains :: "json \<Rightarrow> string \<Rightarrow> error + bool" where
  "contains (JObj kvs) k = Inr (map_of kvs k \<noteq> None)"
| "contains (JArr xs) k = Inr (JStr k \<in> set xs)"
| "contains (JStr s) k = Inr (infix_of k s)"
| "contains _ k = Inl TypeError"

text \<open>\<open>d[k] = v\<close> on a dict.\<close>

fun setitem :: "json \<Rightarrow> string \<Rightarrow> json \<Rightarrow> error + json" where
  "setitem (JObj kvs) k v =
     Inr (JObj (if map_of kvs k = None then kvs @ [(k, v)]
                else map (\<lambda>(k', v'). if k' = k then (k', v) else (k', v')) kvs))"
| "setitem _ k v = Inl TypeError"

text \<open>
  A Python string is the list of the bytes of its UTF-8 encoding. Concatenation, the test
  for the empty string and \<open>s.startswith(t)\<close> are the same on these bytes as on the code
  points, and so is the slice \<open>s[len(t):]\<close> of a string that starts with \<open>t\<close>, the only
  slice the bot keeps. \<open>str.strip\<close>, which removes every Unicode whitespace character from
  both ends, is not defined here: it is one of the parameters of the next section.
\<close>

definition startswith :: "string \<Rightarrow> string \<Rightarrow> bool" where
  "startswith s t = (take (length t) s = t)"

section \<open>The external collaborators\<close>

text \<open>
  The libraries and services the source calls but does not define are parameters of the
  model:
  \<^item> \<open>json_loads s\<close> is \<open>json.loads(s)\<close>; \<open>None\<close> when it raises \<open>JSONDecodeError\<close>;
  \<^item> \<open>py_str v\<close> is the text an f-string produces for a value that is not a string
    (for a string the f-string inserts the string itself, see \<open>fstr\<close>);
  \<^item> \<open>py_strip s\<close> is \<open>s.strip()\<close>;
  \<^item> \<open>ollama_chat m ctx n\<close> is the \<open>try\<close> block of \<open>_generate_response\<close>:
    \<open>ollama.chat\<close> followed by \<open>response['message']['content']\<close>; \<open>Inl t\<close> when the
    block raises an exception \<open>e\<close> with \<open>str(e) = t\<close>, \<open>Inr text\<close> when it returns;
  \<^item> \<open>ollama_check\<close> is the exception \<open>_ensure_model_available\<close> raises, if any;
  \<^item> \<open>spawn\<close> is the result of \<open>asyncio.create_subprocess_exec\<close>.
\<close>

record process =
  stdin_written :: "json list"
  stdin_lost :: bool
  stdout_lines :: "string list"
  terminated :: bool

record env =
  json_loads :: "string \<Rightarrow> json option"
  py_str :: "json \<Rightarrow> string"
  py_strip :: "string \<Rightarrow> string"
  ollama_chat :: "string \<Rightarrow> json list \<Rightarrow> int \<Rightarrow> string + string"
  ollama_check :: "error option"
  spawn :: "error + process"

definition fstr :: "env \<Rightarrow> json \<Rightarrow> string" where
  "fstr E v = (case v of JStr s \<Rightarrow> s | _ \<Rightarrow> py_str E v)"

record config =
  model :: string
  channels :: "string list"
  trigger :: string
  system_prompt :: string
  poll_interval :: int
  context_window :: int
  max_history :: int

section \<open>MCPClient\<close>

text \<open>
  The child process is the requests written to its stdin so far (\<open>stdin_written\<close>, oldest
  first) and the lines it has printed or will print on its stdout and that have not been
  read yet (\<open>stdout_lines\<close>). When no line is left the stream is at end of file: the child
  has closed its output, and \<open>readline()\<close> returns the empty string, as
  \<open>StreamReader.readline\<close> does. \<open>stdin_lost\<close> says that the pipe to the child's stdin has
  lost its connection, in which case \<open>drain()\<close> raises \<open>ConnectionResetError\<close>.
  \<open>terminated\<close> records that \<open>stop()\<close> has sent the termination signal.
  A child that stays alive and never prints is not modelled (the source would wait forever),
  nor is a line longer than the limit of the stream reader (64 KiB), on which \<open>readline()\<close>
  raises \<open>ValueError\<close>.
\<close>

record mcp_client =
  process :: "process option"
  request_id :: int

definition new_client :: mcp_client where
  "new_client = \<lparr>process = None, request_id = 0\<rparr>"

definition start :: "env \<Rightarrow> mcp_client \<Rightarrow> (error + unit) \<times> mcp_client" where
  "start E c = (case spawn E of
                  Inl e \<Rightarrow> (Inl e, c)
                | Inr p \<Rightarrow> (Inr (), c\<lparr>process := Some p\<rparr>))"

definition stop :: "mcp_client \<Rightarrow> mcp_client" where
  "stop c = (case process c of
               None \<Rightarrow> c
             | Some p \<Rightarrow> c\<lparr>process := Some (p\<lparr>terminated := True\<rparr>)\<rparr>)"

definition next_id :: "mcp_client \<Rightarrow> int \<times> mcp_client" where
  "next_id c = (request_id c + 1, c\<lparr>request_id := request_id c + 1\<rparr>)"

definition readline :: "process \<Rightarrow> string \<times> process" where
  "readline p = (case stdout_lines p of
                   [] \<Rightarrow> ([], p)
                 | l # ls \<Rightarrow> (l, p\<lparr>stdout_lines := ls\<rparr>))"

definition make_request :: "int \<Rightarrow> string \<Rightarrow> json \<Rightarrow> json" where
  "make_request i method params =
     JObj [(''jsonrpc'', JStr ''2.0''), (''id'', JNum i), (''method'', JStr method),
           (''params'', if truthy params then params else JObj [])]"

text \<open>The part of \<open>_send_request\<close> after the response line has been read (lines 92 to 97).\<close>

definition decode_response :: "env \<Rightarrow> string \<Rightarrow> error + json" where
  "decode_response E line =
     (case json_loads E line of
        None \<Rightarrow> Inl JSONDecodeError
      | Some response \<Rightarrow>
          and_then (contains response ''error'') (\<lambda>has_error.
            if has_error
            then and_then (getitem response ''error'') (\<lambda>err. Inl (MCPError err))
            else dict_get response ''result'' (JObj [])))"

definition send_request ::
  "env \<Rightarrow> string \<Rightarrow> json \<Rightarrow> mcp_client \<Rightarrow> (error + json) \<times> mcp_client" where
  "send_request E method params c =
     (case process c of
        None \<Rightarrow> (Inl RuntimeError, c)
      | Some p \<Rightarrow>
          (let (i, c1) = next_id c;
               p1 = p\<lparr>stdin_written := stdin_written p @ [make_request i method params]\<rparr>
           in if stdin_lost p1 then (Inl ConnectionResetError, c1\<lparr>process := Some p1\<rparr>)
              else (let (line, p2) = readline p1
                    in (decode_response E line, c1\<lparr>process := Some p2\<rparr>))))"

definition call_tool ::
  "env \<Rightarrow> string \<Rightarrow> json \<Rightarrow> mcp_client \<Rightarrow> (error + json) \<times> mcp_client" where
  "call_tool E tool_name arguments c =
     send_request E ''tools/call'' (JObj [(''name'', JStr tool_name), (''arguments'', arguments)]) c"

text \<open>
  Lines 108 to 110 and 119 to 121, the same text in \<open>get_messages\<close> and \<open>list_channels\<close>
  but for the last key. \<open>inner_text\<close> is \<open>result.get('content', [{}])[0].get('text', '{}')\<close>,
  \<open>inner_payload\<close> the whole of \<open>json.loads(content).get(key, [])\<close>.
  \<open>json.loads\<close> of a value that is not a string raises \<open>TypeError\<close>.
\<close>

definition loads_value :: "env \<Rightarrow> json \<Rightarrow> error + json" where
  "loads_value E v = (case v of
                        JStr s \<Rightarrow> (case json_loads E s of
                                     None \<Rightarrow> Inl JSONDecodeError
                                   | Some d \<Rightarrow> Inr d)
                      | _ \<Rightarrow> Inl TypeError)"

definition inner_text :: "json \<Rightarrow> error + json" where
  "inner_text result =
     and_then (dict_get result ''content'' (JArr [JObj []])) (\<lambda>content_list.
     and_then (first_item content_list) (\<lambda>item.
     dict_get item ''text'' (JStr ''{}'')))"

definition inner_payload :: "env \<Rightarrow> json \<Rightarrow> string \<Rightarrow> error + json" where
  "inner_payload E result key =
     and_then (inner_text result) (\<lambda>content.
     and_then (loads_value E content) (\<lambda>data.
     dict_get data key (JArr [])))"

definition get_messages ::
  "env \<Rightarrow> string \<Rightarrow> int \<Rightarrow> mcp_client \<Rightarrow> (error + json) \<times> mcp_client" where
  "get_messages E channel_id limit c =
     (case call_tool E ''read_discord_messages''
             (JObj [(''channel_id'', JStr channel_id), (''limit'', JNum limit)]) c of
        (Inl e, c1) \<Rightarrow> (Inl e, c1)
      | (Inr result, c1) \<Rightarrow> (inner_payload E result ''messages'', c1))"

definition send_message ::
  "env \<Rightarrow> string \<Rightarrow> string \<Rightarrow> mcp_client \<Rightarrow> (error + json) \<times> mcp_client" where
  "send_message E channel_id message c =
     call_tool E ''send_discord_message''
       (JObj [(''channel_id'', JStr channel_id), (''message'', JStr message)]) c"

definition list_channels :: "env \<Rightarrow> mcp_client \<Rightarrow> (error + json) \<times> mcp_client" where
  "list_channels E c =
     (case call_tool E ''list_discord_channels'' (JObj []) c of
        (Inl e, c1) \<Rightarrow> (Inl e, c1)
      | (Inr result, c1) \<Rightarrow> (inner_payload E result ''channels'', c1))"

section \<open>DiscordAIBot\<close>

text \<open>
  The bot object: the client (\<open>None\<close> until \<open>initialize\<close> creates it), the per-channel
  history (a dict from channel id to the list of stored messages) and the set of composite
  keys already seen. Python mutates the object in place, so an exception leaves every
  update made before it: each function returns the state it reached next to its result.
\<close>

record bot =
  mcp :: "mcp_client option"
  conversation_history :: "string \<Rightarrow> json list option"
  processed_messages :: "string set"

definition new_bot :: bot where
  "new_bot = \<lparr>mcp = None, conversation_history = Map.empty, processed_messages = {}\<rparr>"

text \<open>A call \<open>self.mcp.f(...)\<close>: attribute access on \<open>None\<close> raises \<open>AttributeError\<close>.\<close>

definition with_mcp ::
  "(mcp_client \<Rightarrow> (error + 'a) \<times> mcp_client) \<Rightarrow> bot \<Rightarrow> (error + 'a) \<times> bot" where
  "with_mcp f b =
     (case mcp b of
        None \<Rightarrow> (Inl AttributeError, b)
      | Some c \<Rightarrow> (let (r, c1) = f c in (r, b\<lparr>mcp := Some c1\<rparr>)))"

definition history :: "bot \<Rightarrow> string \<Rightarrow> json list" where
  "history b channel_id = (case conversation_history b channel_id of None \<Rightarrow> [] | Some h \<Rightarrow> h)"

text \<open>The composite key \<open>f"{channel_id}:{msg['id']}"\<close> (lines 175 and 218).\<close>

definition msg_key :: "env \<Rightarrow> string \<Rightarrow> json \<Rightarrow> error + string" where
  "msg_key E channel_id msg =
     and_then (getitem msg ''id'') (\<lambda>v. Inr (channel_id @ '':'' @ fstr E v))"

text \<open>Lines 177 and 178: the append to the history and the insertion of the key.\<close>

definition store :: "string \<Rightarrow> json \<Rightarrow> string \<Rightarrow> bot \<Rightarrow> bot" where
  "store channel_id msg k b =
     b\<lparr>conversation_history :=
         (conversation_history b)(channel_id \<mapsto> history b channel_id @ [msg]),
       processed_messages := insert k (processed_messages b)\<rparr>"

text \<open>Line 224: the key of a message that fails the trigger filter is added, nothing is stored.\<close>

definition mark_processed :: "string \<Rightarrow> bot \<Rightarrow> bot" where
  "mark_processed k b = b\<lparr>processed_messages := insert k (processed_messages b)\<rparr>"

text \<open>
  The first half of \<open>_build_context\<close> (lines 171 to 178), which the specification calls
  \<open>ingest\<close>: \<open>init_history\<close> is lines 171 and 172, \<open>ingest_loop\<close> the loop of
  lines 174 to 178. The result is the exception that ended the loop, if any.
\<close>

fun ingest_loop :: "env \<Rightarrow> string \<Rightarrow> json list \<Rightarrow> bot \<Rightarrow> error option \<times> bot" where
  "ingest_loop E channel_id [] b = (None, b)"
| "ingest_loop E channel_id (msg # msgs) b =
     (case msg_key E channel_id msg of
        Inl e \<Rightarrow> (Some e, b)
      | Inr k \<Rightarrow>
          if k \<in> processed_messages b then ingest_loop E channel_id msgs b
          else ingest_loop E channel_id msgs (store channel_id msg k b))"

definition init_history :: "string \<Rightarrow> bot \<Rightarrow> bot" where
  "init_history channel_id b =
     (if conversation_history b channel_id = None
      then b\<lparr>conversation_history := (conversation_history b)(channel_id \<mapsto> [])\<rparr>
      else b)"

definition ingest :: "env \<Rightarrow> string \<Rightarrow> json list \<Rightarrow> bot \<Rightarrow> error option \<times> bot" where
  "ingest E channel_id msgs b = ingest_loop E channel_id msgs (init_history channel_id b)"

text \<open>The second half of \<open>_build_context\<close> (lines 180 to 190).\<close>

definition render_message :: "env \<Rightarrow> json \<Rightarrow> error + json" where
  "render_message E msg =
     and_then (getitem msg ''author'') (\<lambda>author.
     and_then (getitem msg ''content'') (\<lambda>content.
     Inr (JObj [(''role'', JStr ''user''),
                (''content'', JStr (''['' @ fstr E author @ '']: '' @ fstr E content))])))"

fun render_all :: "env \<Rightarrow> json list \<Rightarrow> error + json list" where
  "render_all E [] = Inr []"
| "render_all E (msg # msgs) =
     and_then (render_message E msg) (\<lambda>entry.
     and_then (render_all E msgs) (\<lambda>entries. Inr (entry # entries)))"

definition render_context :: "env \<Rightarrow> config \<Rightarrow> string \<Rightarrow> bot \<Rightarrow> error + json list" where
  "render_context E cfg channel_id b =
     and_then (render_all E (history b channel_id)) (\<lambda>entries.
       Inr (JObj [(''role'', JStr ''system''), (''content'', JStr (system_prompt cfg))] # entries))"

definition build_context ::
  "env \<Rightarrow> config \<Rightarrow> string \<Rightarrow> json list \<Rightarrow> bot \<Rightarrow> (error + json list) \<times> bot" where
  "build_context E cfg channel_id msgs b =
     (case ingest E channel_id msgs b of
        (Some e, b1) \<Rightarrow> (Inl e, b1)
      | (None, b1) \<Rightarrow> (render_context E cfg channel_id b1, b1))"

definition generate_response :: "env \<Rightarrow> config \<Rightarrow> json list \<Rightarrow> string" where
  "generate_response E cfg context =
     (case ollama_chat E (model cfg) context (context_window cfg) of
        Inr text \<Rightarrow> text
      | Inl e \<Rightarrow> ''Error generating response: '' @ e)"

text \<open>
  \<open>_process_channel\<close>. Its \<open>except Exception\<close> clause catches every exception of the body,
  prints it and returns: the result is the exception that was caught and printed, if any.
  \<open>respond\<close> is the body from line 227 on. There \<open>messages\<close> is a list: \<open>last_message\<close> is
  a dict (its \<open>['id']\<close> was read), and only a list has a dict as its \<open>[-1]\<close>.
  The assignment of line 231 changes the dict that is the last element of that list.
\<close>

definition mutated_window :: "json \<Rightarrow> json \<Rightarrow> json list" where
  "mutated_window messages last_message =
     (case messages of JArr ms \<Rightarrow> butlast ms @ [last_message] | _ \<Rightarrow> [])"

definition respond ::
  "env \<Rightarrow> config \<Rightarrow> string \<Rightarrow> json \<Rightarrow> json \<Rightarrow> string \<Rightarrow> bot \<Rightarrow> error option \<times> bot" where
  "respond E cfg channel_id messages last_message content b =
     (case getitem last_message ''author'' of
        Inl e \<Rightarrow> (Some e, b)
      | Inr author \<Rightarrow>
          (let user_message = py_strip E (drop (length (trigger cfg)) content)
           in case setitem last_message ''content'' (JStr user_message) of
                Inl e \<Rightarrow> (Some e, b)
              | Inr last_message1 \<Rightarrow>
                  (case build_context E cfg channel_id
                          (mutated_window messages last_message1) b of
                     (Inl e, b1) \<Rightarrow> (Some e, b1)
                   | (Inr context, b1) \<Rightarrow>
                       (case with_mcp (send_message E channel_id
                                        (generate_response E cfg context)) b1 of
                          (Inl e, b2) \<Rightarrow> (Some e, b2)
                        | (Inr sent, b2) \<Rightarrow> (None, b2)))))"

definition process_channel ::
  "env \<Rightarrow> config \<Rightarrow> string \<Rightarrow> bot \<Rightarrow> error option \<times> bot" where
  "process_channel E cfg channel_id b =
     (case with_mcp (get_messages E channel_id 100) b of
        (Inl e, b1) \<Rightarrow> (Some e, b1)
      | (Inr messages, b1) \<Rightarrow>
          if \<not> truthy messages then (None, b1)
          else (case last_item messages of
                  Inl e \<Rightarrow> (Some e, b1)
                | Inr last_message \<Rightarrow>
                    (case msg_key E channel_id last_message of
                       Inl e \<Rightarrow> (Some e, b1)
                     | Inr msg_id \<Rightarrow>
                         if msg_id \<in> processed_messages b1 then (None, b1)
                         else (case getitem last_message ''content'' of
                                 Inl e \<Rightarrow> (Some e, b1)
                               | Inr (JStr content) \<Rightarrow>
                                   if \<not> startswith content (trigger cfg)
                                   then (None, mark_processed msg_id b1)
                                   else respond E cfg channel_id messages last_message content b1
                               | Inr other \<Rightarrow> (Some AttributeError, b1)))))"

text \<open>
  \<open>run\<close>. The polling loop has no exit of its own: it ends when an interrupt reaches it.
  The model runs \<open>n\<close> whole poll cycles and then delivers the interrupt: a
  \<open>KeyboardInterrupt\<close>, which the loop's handler catches, or the \<open>CancelledError\<close> with
  which asyncio cancels the task. Both pass through the \<open>finally\<close> clause of line 268;
  \<open>terminate()\<close> and \<open>wait()\<close> are taken to succeed.
\<close>

definition poll_cycle :: "env \<Rightarrow> config \<Rightarrow> bot \<Rightarrow> bot" where
  "poll_cycle E cfg b =
     foldl (\<lambda>b1 channel_id.
              if py_strip E channel_id \<noteq> []
              then snd (process_channel E cfg (py_strip E channel_id) b1)
              else b1)
           b (channels cfg)"

fun poll_cycles :: "env \<Rightarrow> config \<Rightarrow> nat \<Rightarrow> bot \<Rightarrow> bot" where
  "poll_cycles E cfg 0 b = b"
| "poll_cycles E cfg (Suc n) b = poll_cycles E cfg n (poll_cycle E cfg b)"

datatype interrupt = KeyboardInterrupt | CancelledError

datatype outcome = Returned | Raised error | Cancelled

fun iter_items :: "json \<Rightarrow> error + json list" where
  "iter_items (JArr xs) = Inr xs"
| "iter_items (JStr s) = Inr (map (\<lambda>c. JStr [c]) s)"
| "iter_items (JObj kvs) = Inr (map (\<lambda>kv. JStr (fst kv)) kvs)"
| "iter_items _ = Inl TypeError"

definition print_channel :: "json \<Rightarrow> error + unit" where
  "print_channel ch =
     and_then (getitem ch ''name'') (\<lambda>name.
     and_then (getitem ch ''id'') (\<lambda>ident.
     and_then (getitem ch ''guild'') (\<lambda>guild. Inr ())))"

fun print_each :: "json list \<Rightarrow> error option" where
  "print_each [] = None"
| "print_each (ch # chs) =
     (case print_channel ch of Inl e \<Rightarrow> Some e | Inr u \<Rightarrow> print_each chs)"

definition stop_mcp :: "bot \<Rightarrow> bot" where
  "stop_mcp b = (case mcp b of None \<Rightarrow> b | Some c \<Rightarrow> b\<lparr>mcp := Some (stop c)\<rparr>)"

definition run :: "env \<Rightarrow> config \<Rightarrow> nat \<Rightarrow> interrupt \<Rightarrow> bot \<Rightarrow> outcome \<times> bot" where
  "run E cfg n sig b =
     (if channels cfg = [] \<or> channels cfg = [[]]
      then (case with_mcp (list_channels E) b of
              (Inl e, b1) \<Rightarrow> (Raised e, b1)
            | (Inr chs, b1) \<Rightarrow>
                (case iter_items chs of
                   Inl e \<Rightarrow> (Raised e, b1)
                 | Inr items \<Rightarrow>
                     (case print_each items of
                        Some e \<Rightarrow> (Raised e, b1)
                      | None \<Rightarrow> (Returned, b1))))
      else ((case sig of KeyboardInterrupt \<Rightarrow> Returned | CancelledError \<Rightarrow> Cancelled),
            stop_mcp (poll_cycles E cfg n b)))"

definition initialize :: "env \<Rightarrow> bot \<Rightarrow> (error + unit) \<times> bot" where
  "initialize E b =
     (case ollama_check E of
        Some e \<Rightarrow> (Inl e, b)
      | None \<Rightarrow>
          (case start E new_client of
             (Inl e, c) \<Rightarrow> (Inl e, b\<lparr>mcp := Some c\<rparr>)
           | (Inr u, c) \<Rightarrow> (Inr (), b\<lparr>mcp := Some c\<rparr>)))"

text \<open>\<open>main\<close>: its handler catches \<open>Exception\<close> only, so a cancellation passes through.\<close>

definition main :: "env \<Rightarrow> config \<Rightarrow> nat \<Rightarrow> interrupt \<Rightarrow> outcome \<times> bot" where
  "main E cfg n sig =
     (case initialize E new_bot of
        (Inl e, b1) \<Rightarrow> (Raised e, stop_mcp b1)
      | (Inr u, b1) \<Rightarrow>
          (case run E cfg n sig b1 of
             (Raised e, b2) \<Rightarrow> (Raised e, stop_mcp b2)
           | (out, b2) \<Rightarrow> (out, b2)))"

section \<open>Notions of the specification\<close>

text \<open>
  A fetch window is a slice \<open>S[i:j]\<close> of the channel's message sequence \<open>S\<close>; the union of
  two windows in the order of \<open>S\<close> keeps the messages of \<open>S\<close> that lie in one of them.
\<close>

definition window :: "'a list \<Rightarrow> nat \<Rightarrow> nat \<Rightarrow> 'a list" where
  "window S i j = drop i (take j S)"

definition window_union :: "'a list \<Rightarrow> 'a list \<Rightarrow> 'a list \<Rightarrow> 'a list" where
  "window_union S W1 W2 = filter (\<lambda>m. m \<in> set W1 \<or> m \<in> set W2) S"

text \<open>
  The union of two windows in the order in which their messages arrive at the store: the
  first window, then the messages of the second that the first does not hold.
\<close>

definition arrival_union :: "'a list \<Rightarrow> 'a list \<Rightarrow> 'a list" where
  "arrival_union W1 W2 = W1 @ filter (\<lambda>m. m \<notin> set W1) W2"

text \<open>A message with an \<open>id\<close>: one for which the composite key can be formed.\<close>

definition has_id :: "json \<Rightarrow> bool" where
  "has_id msg = (case getitem msg ''id'' of Inl e \<Rightarrow> False | Inr v \<Rightarrow> True)"

definition key_in :: "env \<Rightarrow> string \<Rightarrow> string set \<Rightarrow> json \<Rightarrow> bool" where
  "key_in E channel_id keys msg =
     (case msg_key E channel_id msg of Inl e \<Rightarrow> False | Inr k \<Rightarrow> k \<in> keys)"

text \<open>
  The invariant of the store, for one channel: the composite key of every stored message
  is in the processed set, and no two stored messages have the same composite key.
\<close>

definition channel_inv :: "env \<Rightarrow> string \<Rightarrow> bot \<Rightarrow> bool" where
  "channel_inv E channel_id b =
     (list_all (key_in E channel_id (processed_messages b)) (history b channel_id) \<and>
      distinct (map (msg_key E channel_id) (history b channel_id)))"

text \<open>The two operations on the store, and a sequence of them.\<close>

datatype store_op = Ingest string "json list" | MarkProcessed string

fun apply_op :: "env \<Rightarrow> bot \<Rightarrow> store_op \<Rightarrow> bot" where
  "apply_op E b (Ingest channel_id msgs) = snd (ingest E channel_id msgs b)"
| "apply_op E b (MarkProcessed k) = mark_processed k b"

text \<open>
  A well-formed message has the three fields the bot reads. \<open>attributed_line\<close> is the
  text \<open>[author]: content\<close> of such a message, an f-string showing a field that is a
  string as it is. \<open>context_of\<close> is the context the specification describes for a list
  of stored messages: the entry of the system prompt, then one entry with the attributed
  line of each message. \<open>ingest_all\<close> ingests
  a sequence of windows into one channel, one after the other. \<open>tracks E c A b\<close> says that
  the history of channel \<open>c\<close> holds exactly one stored message for each composite key of
  the messages \<open>A\<close>, and that the processed set holds exactly these keys.
\<close>

definition well_formed :: "json \<Rightarrow> bool" where
  "well_formed msg =
     (has_id msg \<and>
      (case getitem msg ''author'' of Inl e \<Rightarrow> False | Inr v \<Rightarrow> True) \<and>
      (case getitem msg ''content'' of Inl e \<Rightarrow> False | Inr v \<Rightarrow> True))"

definition field :: "json \<Rightarrow> string \<Rightarrow> json" where
  "field msg k = (case getitem msg k of Inl e \<Rightarrow> JNull | Inr v \<Rightarrow> v)"

definition attributed_line :: "env \<Rightarrow> json \<Rightarrow> string" where
  "attributed_line E msg =
     ''['' @ fstr E (field msg ''author'') @ '']: '' @ fstr E (field msg ''content'')"

definition context_of :: "env \<Rightarrow> config \<Rightarrow> json list \<Rightarrow> json list" where
  "context_of E cfg msgs =
     JObj [(''role'', JStr ''system''), (''content'', JStr (system_prompt cfg))] #
     map (\<lambda>msg. JObj [(''role'', JStr ''user''), (''content'', JStr (attributed_line E msg))]) msgs"

definition ingest_all :: "env \<Rightarrow> string \<Rightarrow> json list list \<Rightarrow> bot \<Rightarrow> bot" where
  "ingest_all E channel_id Ws b = foldl (\<lambda>b1 W. snd (ingest E channel_id W b1)) b Ws"

definition tracks :: "env \<Rightarrow> string \<Rightarrow> json set \<Rightarrow> bot \<Rightarrow> bool" where
  "tracks E c A b =
     (distinct (map (msg_key E c) (history b c)) \<and>
      msg_key E c ` set (history b c) = msg_key E c ` A \<and>
      Inr ` processed_messages b = msg_key E c ` A \<and>
      set (history b c) \<subseteq> A)"

text \<open>
  The three named operations of the client, and a sequence of calls of them. \<open>written\<close>
  is the list of requests handed to the child's stdin so far, \<open>sent_ids\<close> the \<open>id\<close> fields
  of these requests.
\<close>

datatype rpc_call = GetMessages string int | SendMessage string string | ListChannels

fun perform :: "env \<Rightarrow> mcp_client \<Rightarrow> rpc_call \<Rightarrow> mcp_client" where
  "perform E c (GetMessages channel_id limit) = snd (get_messages E channel_id limit c)"
| "perform E c (SendMessage channel_id text) = snd (send_message E channel_id text c)"
| "perform E c ListChannels = snd (list_channels E c)"

definition written :: "mcp_client \<Rightarrow> json list" where
  "written c = (case process c of None \<Rightarrow> [] | Some p \<Rightarrow> stdin_written p)"

definition sent_ids :: "mcp_client \<Rightarrow> (error + json) list" where
  "sent_ids c = map (\<lambda>request. getitem request ''id'') (written c)"

text \<open>
  A tool result without a \<open>content\<close> entry, and one whose \<open>content\<close> is a list that starts
  with an object without a \<open>text\<close> entry.
\<close>

definition lacks_content :: "json \<Rightarrow> bool" where
  "lacks_content result =
     (case result of JObj kvs \<Rightarrow> map_of kvs ''content'' = None | _ \<Rightarrow> False)"

fun first_without_text :: "json \<Rightarrow> bool" where
  "first_without_text (JArr (JObj item # rest)) = (map_of item ''text'' = None)"
| "first_without_text _ = False"

definition first_lacks_text :: "json \<Rightarrow> bool" where
  "first_lacks_text result =
     (case result of
        JObj kvs \<Rightarrow>
          (case map_of kvs ''content'' of
             None \<Rightarrow> False
           | Some content_list \<Rightarrow> first_without_text content_list)
      | _ \<Rightarrow> False)"

text \<open>
  \<open>fetch_request\<close> is the request \<open>get_messages\<close> writes. \<open>bot_written\<close> is the list of
  requests the bot's client has written. \<open>closed_output\<close> says that the child has closed
  its output (no line is left to read) and has not been sent the termination signal.
  \<open>set_stdout\<close> sets the lines the child prints next. \<open>watched\<close> are the configured
  channel ids the polling loop does not skip.
\<close>

definition fetch_request :: "int \<Rightarrow> string \<Rightarrow> int \<Rightarrow> json" where
  "fetch_request i channel_id limit =
     make_request i ''tools/call''
       (JObj [(''name'', JStr ''read_discord_messages''),
              (''arguments'', JObj [(''channel_id'', JStr channel_id), (''limit'', JNum limit)])])"

definition bot_written :: "bot \<Rightarrow> json list" where
  "bot_written b = (case mcp b of None \<Rightarrow> [] | Some cl \<Rightarrow> written cl)"

definition closed_output :: "bot \<Rightarrow> bool" where
  "closed_output b =
     (case mcp b of
        None \<Rightarrow> False
      | Some cl \<Rightarrow>
          (case process cl of
             None \<Rightarrow> False
           | Some p \<Rightarrow> stdout_lines p = [] \<and> \<not> terminated p))"


definition watched :: "env \<Rightarrow> config \<Rightarrow> string list" where
  "watched E cfg = filter (\<lambda>channel_id. py_strip E channel_id \<noteq> []) (channels cfg)"

text \<open>
  \<open>reply_request\<close> is the request \<open>send_message\<close> writes. \<open>stripped_content\<close> is line 230,
  \<open>stripped_message\<close> the last message after the assignment of line 231. \<open>process_all\<close>
  runs \<open>_process_channel\<close> on a sequence of channel ids, one after the other.
  \<open>absent E c k b\<close> says that the key \<open>k\<close> is in the processed set and that no stored
  message of channel \<open>c\<close> has it.
\<close>

definition reply_request :: "int \<Rightarrow> string \<Rightarrow> string \<Rightarrow> json" where
  "reply_request i channel_id text =
     make_request i ''tools/call''
       (JObj [(''name'', JStr ''send_discord_message''),
              (''arguments'', JObj [(''channel_id'', JStr channel_id), (''message'', JStr text)])])"

definition stripped_content :: "env \<Rightarrow> config \<Rightarrow> string \<Rightarrow> string" where
  "stripped_content E cfg content = py_strip E (drop (length (trigger cfg)) content)"

definition stripped_message :: "env \<Rightarrow> config \<Rightarrow> json \<Rightarrow> string \<Rightarrow> json" where
  "stripped_message E cfg msg content =
     (case setitem msg ''content'' (JStr (stripped_content E cfg content)) of
        Inl e \<Rightarrow> msg
      | Inr msg1 \<Rightarrow> msg1)"

definition process_all :: "env \<Rightarrow> config \<Rightarrow> string list \<Rightarrow> bot \<Rightarrow> bot" where
  "process_all E cfg channel_ids b =
     foldl (\<lambda>b1 channel_id. snd (process_channel E cfg channel_id b1)) b channel_ids"

definition absent :: "env \<Rightarrow> string \<Rightarrow> string \<Rightarrow> bot \<Rightarrow> bool" where
  "absent E c k b =
     (k \<in> processed_messages b \<and> Inr k \<notin> msg_key E c ` set (history b c))"

text \<open>
  \<open>child_terminated\<close> says that \<open>stop()\<close> has sent the child the termination signal,
  \<open>started\<close> that the client has a child process. \<open>list_request\<close> is the request
  \<open>list_channels\<close> writes.
\<close>

definition child_terminated :: "bot \<Rightarrow> bool" where
  "child_terminated b =
     (case mcp b of
        None \<Rightarrow> False
      | Some cl \<Rightarrow> (case process cl of None \<Rightarrow> False | Some p \<Rightarrow> terminated p))"

definition started :: "bot \<Rightarrow> bool" where
  "started b =
     (case mcp b of
        None \<Rightarrow> False
      | Some cl \<Rightarrow> (case process cl of None \<Rightarrow> False | Some p \<Rightarrow> True))"

definition list_request :: "int \<Rightarrow> json" where
  "list_request i =
     make_request i ''tools/call''
       (JObj [(''name'', JStr ''list_discord_channels''), (''arguments'', JObj [])])"

text \<open>
  \<open>grown E c b b1\<close>: from \<open>b\<close> to \<open>b1\<close> no key has left the processed set, no entry has
  left the history of channel \<open>c\<close> (the old history is a prefix of the new one), and the
  invariant of channel \<open>c\<close> has been kept.
\<close>

definition grown :: "env \<Rightarrow> string \<Rightarrow> bot \<Rightarrow> bot \<Rightarrow> bool" where
  "grown E c b b1 =
     (processed_messages b \<subseteq> processed_messages b1 \<and>
      prefix (history b c) (history b1 c) \<and>
      (channel_inv E c b \<longrightarrow> channel_inv E c b1))"

section \<open>Sample data\<close>

text \<open>
  The inputs of the scenarios of the specification, for the concrete instances below.
  \<open>sample_loads\<close> decodes the JSON texts of these scenarios as \<open>json.loads\<close> does and
  fails on every other text (among them the empty line and \<open>not json\<close>).
\<close>

definition quoted :: "string \<Rightarrow> string" where
  "quoted s = CHR 0x22 # s @ [CHR 0x22]"

definition escaped :: "string \<Rightarrow> string" where
  "escaped s = concat (map (\<lambda>c. if c = CHR 0x22 \<or> c = CHR 0x5C then [CHR 0x5C, c] else [c]) s)"

definition message :: "string \<Rightarrow> string \<Rightarrow> string \<Rightarrow> json" where
  "message i a t = JObj [(''id'', JStr i), (''author'', JStr a), (''content'', JStr t)]"

definition message_text :: "string \<Rightarrow> string \<Rightarrow> string \<Rightarrow> string" where
  "message_text i a t =
     ''{'' @ quoted ''id'' @ '':'' @ quoted i @ '','' @ quoted ''author'' @ '':'' @ quoted a @
     '','' @ quoted ''content'' @ '':'' @ quoted t @ ''}''"

definition payload_text :: "string \<Rightarrow> string" where
  "payload_text msgs = ''{'' @ quoted ''messages'' @ '':['' @ msgs @ '']}''"

definition result_line :: "string \<Rightarrow> string" where
  "result_line text =
     ''{'' @ quoted ''result'' @ '':{'' @ quoted ''content'' @ '':[{'' @ quoted ''text'' @ '':'' @
     quoted (escaped text) @ ''}]}}''"

definition tool_result :: "string \<Rightarrow> json" where
  "tool_result text = JObj [(''result'', JObj [(''content'', JArr [JObj [(''text'', JStr text)]])])]"

definition ok_line :: string where
  "ok_line = ''{'' @ quoted ''result'' @ '':{}}''"

definition hello_text :: string where
  "hello_text = payload_text (message_text ''1'' ''alice'' ''hello'')"

definition ask_text :: string where
  "ask_text = payload_text (message_text ''2'' ''bob'' ''!ai what time is it'')"

definition none_text :: string where
  "none_text = payload_text []"

definition sample_loads :: "string \<Rightarrow> json option" where
  "sample_loads =
     map_of [(''{}'', JObj []),
             (ok_line, JObj [(''result'', JObj [])]),
             (hello_text, JObj [(''messages'', JArr [message ''1'' ''alice'' ''hello''])]),
             (ask_text, JObj [(''messages'', JArr [message ''2'' ''bob'' ''!ai what time is it''])]),
             (none_text, JObj [(''messages'', JArr [])]),
             (result_line hello_text, tool_result hello_text),
             (result_line ask_text, tool_result ask_text),
             (result_line none_text, tool_result none_text),
             (result_line ''not json'', tool_result ''not json'')]"

definition child :: "string list \<Rightarrow> process" where
  "child lines = \<lparr>stdin_written = [], stdin_lost = False, stdout_lines = lines, terminated = False\<rparr>"

text \<open>
  The texts of the samples are ASCII texts, on which \<open>str.strip\<close> removes the space,
  \<open>\t \n \v \f \r\<close> and the four separators \<open>0x1c\<close> to \<open>0x1f\<close> from both ends.
\<close>

definition ascii_space :: "char \<Rightarrow> bool" where
  "ascii_space c = (c \<in> set [CHR '' '', CHR 0x09, CHR 0x0A, CHR 0x0B, CHR 0x0C, CHR 0x0D,
                             CHR 0x1C, CHR 0x1D, CHR 0x1E, CHR 0x1F])"

definition ascii_strip :: "string \<Rightarrow> string" where
  "ascii_strip s = rev (dropWhile ascii_space (rev (dropWhile ascii_space s)))"

definition sample_env :: env where
  "sample_env =
     \<lparr>json_loads = sample_loads, py_str = (\<lambda>v. ''?''), py_strip = ascii_strip,
      ollama_chat = (\<lambda>m ctx n. Inr ''It is noon.''),
      ollama_check = None, spawn = Inr (child [])\<rparr>"

definition sample_config :: config where
  "sample_config =
     \<lparr>model = ''qwen2.5:7b'', channels = [''42''], trigger = ''!ai'',
      system_prompt = ''You are a helpful AI assistant integrated with Discord.'',
      poll_interval = 3, context_window = 8192, max_history = 10\<rparr>"

definition sample_bot :: "string list \<Rightarrow> bot" where
  "sample_bot lines =
     new_bot\<lparr>mcp := Some \<lparr>process = Some (child lines), request_id = 0\<rparr>\<rparr>"

definition sample_messages :: "json list" where
  "sample_messages =
     [message ''1'' ''alice'' ''hello'', message ''2'' ''bob'' ''hi'', message ''3'' ''carol'' ''hey'']"

text \<open>
  \<open>failing_env\<close> is \<open>sample_env\<close> with a generation backend that raises. \<open>fetched_bot\<close>
  is the bot on channel \<open>42\<close> right after its first fetch.
\<close>

definition failing_env :: env where
  "failing_env = sample_env\<lparr>ollama_chat := (\<lambda>m ctx n. Inl ''connection refused'')\<rparr>"

definition fetched_bot :: "string list \<Rightarrow> bot" where
  "fetched_bot rest =
     new_bot\<lparr>mcp := Some \<lparr>process = Some \<lparr>stdin_written = [fetch_request 1 ''42'' 100],
                                           stdin_lost = False, stdout_lines = rest,
                                           terminated = False\<rparr>,
                          request_id = 1\<rparr>\<rparr>"

text \<open>
  \<open>listing_env\<close> starts a child that answers the one request it gets with an empty
  result; \<open>unconfigured\<close> is the configuration \<open>from_env\<close> builds when
  \<open>MONITORED_CHANNEL_IDS\<close> is not set.
\<close>

definition listing_env :: env where
  "listing_env = sample_env\<lparr>spawn := Inr (child [ok_line])\<rparr>"

definition unconfigured :: config where
  "unconfigured = sample_config\<lparr>channels := [[]]\<rparr>"

section \<open>Windows of a message sequence\<close>

lemma window_append:
  assumes "a \<le> b" and "b \<le> c"
  shows "window S a b @ window S b c = window S a c"
proof -
  have split: "take c S = take b S @ drop b (take c S)"
    using assms(2) by (metis append_take_drop_id min.absorb1 take_take)
  show ?thesis
  proof (cases "a \<le> length (take b S)")
    case True
    have "drop a (take c S) = drop a (take b S @ drop b (take c S))"
      using split by simp
    also have "\<dots> = drop a (take b S) @ drop b (take c S)"
      using True by simp
    finally show ?thesis by (simp add: window_def)
  next
    case False
    then have "length S < b" using assms(1) by simp
    then show ?thesis using assms by (simp add: window_def)
  qed
qed

lemma filter_mem_pieces:
  assumes "distinct (P @ A @ G @ Z @ Q)"
  shows "filter (\<lambda>m. m \<in> set A \<or> m \<in> set Z) (P @ A @ G @ Z @ Q) = A @ Z"
proof -
  let ?f = "\<lambda>m. m \<in> set A \<or> m \<in> set Z"
  have "filter ?f P = []" using assms by (auto simp: filter_empty_conv)
  moreover have "filter ?f G = []" using assms by (auto simp: filter_empty_conv)
  moreover have "filter ?f Q = []" using assms by (auto simp: filter_empty_conv)
  moreover have "filter ?f A = A" by (simp add: filter_id_conv)
  moreover have "filter ?f Z = Z" by (simp add: filter_id_conv)
  ultimately show ?thesis by simp
qed

lemma split5:
  assumes "a \<le> b" "b \<le> c" "c \<le> d"
  shows "S = take a S @ window S a b @ window S b c @ window S c d @ drop d S"
proof -
  have "window S 0 a @ window S a b @ window S b c @ window S c d = window S 0 d"
    using assms by (simp add: window_append)
  then have "take a S @ window S a b @ window S b c @ window S c d = take d S"
    by (simp add: window_def)
  then have "(take a S @ window S a b @ window S b c @ window S c d) @ drop d S = S"
    by simp
  then show ?thesis by simp
qed

lemma union_decomp:
  assumes d: "distinct S" and le: "i1 \<le> i2" "j1 \<le> j2"
  shows "\<exists>Y Z. window S i2 j2 = Y @ Z \<and> set Y \<subseteq> set (window S i1 j1) \<and>
           set Z \<inter> set (window S i1 j1) = {} \<and>
           window_union S (window S i1 j1) (window S i2 j2) = window S i1 j1 @ Z"
proof -
  define lo where "lo = min i1 j1"
  define m where "m = min (max i2 j1) j2"
  define lo2 where "lo2 = min i2 m"
  let ?W1 = "window S i1 j1" and ?W2 = "window S i2 j2"
  let ?Y = "window S lo2 m" and ?Z = "window S m j2"
  have w1: "?W1 = window S lo j1" by (auto simp: window_def lo_def min_def)
  have w2: "?W2 = window S lo2 j2" by (auto simp: window_def lo2_def m_def min_def max_def)
  have ord: "lo \<le> j1" "j1 \<le> m" "m \<le> j2" "lo2 \<le> m"
    using le by (auto simp: lo_def m_def lo2_def)
  have yz: "?W2 = ?Y @ ?Z" using ord w2 by (simp add: window_append)
  have ysub: "set ?Y \<subseteq> set ?W1"
  proof (cases "i2 \<le> j1")
    case True
    then have "m = j1" "lo2 = i2" using le by (auto simp: m_def lo2_def)
    moreover have "window S i1 j1 = window S i1 i2 @ window S i2 j1"
      using le True by (simp add: window_append)
    ultimately show ?thesis by simp
  next
    case False
    then have "lo2 = m" using le by (auto simp: m_def lo2_def min_def max_def)
    then show ?thesis by (simp add: window_def)
  qed
  have S: "S = take lo S @ window S lo j1 @ window S j1 m @ ?Z @ drop j2 S"
    using ord(1,2,3) by (rule split5)
  have "distinct (take lo S @ window S lo j1 @ window S j1 m @ ?Z @ drop j2 S)"
    using d S by simp
  then have disj: "set ?Z \<inter> set ?W1 = {}" unfolding w1 by auto
  have sets: "\<And>x. (x \<in> set ?W1 \<or> x \<in> set ?W2) = (x \<in> set ?W1 \<or> x \<in> set ?Z)"
    using yz ysub by auto
  have "window_union S ?W1 ?W2 = filter (\<lambda>x. x \<in> set ?W1 \<or> x \<in> set ?Z) S"
    unfolding window_union_def using sets by simp
  also have "\<dots> = filter (\<lambda>x. x \<in> set (window S lo j1) \<or> x \<in> set ?Z)
                      (take lo S @ window S lo j1 @ window S j1 m @ ?Z @ drop j2 S)"
    using S w1 by simp
  also have "\<dots> = window S lo j1 @ ?Z"
    using d S by (intro filter_mem_pieces) simp
  finally show ?thesis using yz ysub disj w1 by auto
qed

lemma arrival_is_union:
  assumes "distinct S" and "i1 \<le> i2" and "j1 \<le> j2"
  shows "arrival_union (window S i1 j1) (window S i2 j2) =
           window_union S (window S i1 j1) (window S i2 j2)"
proof -
  obtain Y Z where yz: "window S i2 j2 = Y @ Z" and sub: "set Y \<subseteq> set (window S i1 j1)"
    and disj: "set Z \<inter> set (window S i1 j1) = {}"
    and un: "window_union S (window S i1 j1) (window S i2 j2) = window S i1 j1 @ Z"
    using union_decomp [OF assms] by blast
  have "filter (\<lambda>m. m \<notin> set (window S i1 j1)) Y = []"
    using sub by (auto simp: filter_empty_conv)
  moreover have "filter (\<lambda>m. m \<notin> set (window S i1 j1)) Z = Z"
    using disj by (auto simp: filter_id_conv)
  ultimately show ?thesis using yz un by (simp add: arrival_union_def)
qed

section \<open>The store: elementary facts\<close>

lemma ingest_init: "ingest E c ms b = ingest_loop E c ms (init_history c b)"
  by (simp add: ingest_def)

lemma has_id_key: "has_id m \<Longrightarrow> \<exists>k. msg_key E c m = Inr k"
  by (auto simp: has_id_def msg_key_def and_then_def split: sum.splits)

lemma key_has_id: "msg_key E c m = Inr k \<Longrightarrow> has_id m"
  by (auto simp: has_id_def msg_key_def and_then_def split: sum.splits)

lemma history_store [simp]:
  "history (store c msg k b) c' = (if c' = c then history b c @ [msg] else history b c')"
  by (simp add: store_def history_def)

lemma processed_store [simp]:
  "processed_messages (store c msg k b) = insert k (processed_messages b)"
  by (simp add: store_def)

lemma mcp_store [simp]: "mcp (store c msg k b) = mcp b"
  by (simp add: store_def)

lemma ingest_loop_append:
  "list_all has_id xs \<Longrightarrow>
   ingest_loop E c (xs @ ys) b = ingest_loop E c ys (snd (ingest_loop E c xs b))"
proof (induction xs arbitrary: b)
  case Nil
  then show ?case by simp
next
  case (Cons m xs)
  from Cons.prems have "has_id m" by simp
  then obtain k where "msg_key E c m = Inr k" using has_id_key [of m E c] by blast
  with Cons show ?case by simp
qed

lemma ingest_loop_ok: "list_all has_id xs \<Longrightarrow> fst (ingest_loop E c xs b) = None"
proof (induction xs arbitrary: b)
  case Nil
  then show ?case by simp
next
  case (Cons m xs)
  from Cons.prems have "has_id m" by simp
  then obtain k where "msg_key E c m = Inr k" using has_id_key [of m E c] by blast
  with Cons show ?case by simp
qed

lemma ingest_loop_processed_mono:
  "processed_messages b \<subseteq> processed_messages (snd (ingest_loop E c xs b))"
proof (induction xs arbitrary: b)
  case Nil
  then show ?case by simp
next
  case (Cons m xs)
  show ?case
  proof (cases "msg_key E c m")
    case (Inl e)
    then show ?thesis by simp
  next
    case (Inr k)
    have "processed_messages b \<subseteq> processed_messages (store c m k b)" by auto
    also have "\<dots> \<subseteq> processed_messages (snd (ingest_loop E c xs (store c m k b)))"
      by (rule Cons.IH)
    finally show ?thesis using Inr Cons.IH [of b] by simp
  qed
qed

lemma ingest_loop_seen:
  "list_all (key_in E c (processed_messages b)) xs \<Longrightarrow> ingest_loop E c xs b = (None, b)"
  by (induction xs) (auto simp: key_in_def split: sum.splits)

lemma ingest_loop_keys:
  "list_all has_id xs \<Longrightarrow>
   list_all (key_in E c (processed_messages (snd (ingest_loop E c xs b)))) xs"
proof (induction xs arbitrary: b)
  case Nil
  then show ?case by simp
next
  case (Cons m xs)
  from Cons.prems have "has_id m" by simp
  then obtain k where k: "msg_key E c m = Inr k" using has_id_key [of m E c] by blast
  define b1 where "b1 = (if k \<in> processed_messages b then b else store c m k b)"
  have step: "ingest_loop E c (m # xs) b = ingest_loop E c xs b1"
    using k by (simp add: b1_def)
  have "k \<in> processed_messages b1" by (simp add: b1_def)
  then have "k \<in> processed_messages (snd (ingest_loop E c xs b1))"
    using ingest_loop_processed_mono by blast
  then have "key_in E c (processed_messages (snd (ingest_loop E c xs b1))) m"
    using k by (simp add: key_in_def)
  moreover have "list_all (key_in E c (processed_messages (snd (ingest_loop E c xs b1)))) xs"
    using Cons by simp
  ultimately show ?case unfolding step by simp
qed

lemma key_in_mono: "key_in E c A m \<Longrightarrow> A \<subseteq> B \<Longrightarrow> key_in E c B m"
  by (auto simp: key_in_def split: sum.splits)

lemma ingest_loop_history_set:
  "conversation_history b c \<noteq> None \<Longrightarrow>
   conversation_history (snd (ingest_loop E c xs b)) c \<noteq> None"
proof (induction xs arbitrary: b)
  case Nil
  then show ?case by simp
next
  case (Cons m xs)
  have "conversation_history (store c m k b) c \<noteq> None" for k by (simp add: store_def)
  with Cons show ?case by (auto split: sum.splits)
qed

lemma init_history_idem:
  "conversation_history b c \<noteq> None \<Longrightarrow> init_history c b = b"
  by (auto simp: init_history_def)

lemma init_history_set: "conversation_history (init_history c b) c \<noteq> None"
  by (simp add: init_history_def)

lemma ingest_twice:
  assumes "list_all has_id xs"
  shows "ingest E c ys (snd (ingest E c xs b)) = ingest E c (xs @ ys) b"
proof -
  have "conversation_history (snd (ingest_loop E c xs (init_history c b))) c \<noteq> None"
    by (intro ingest_loop_history_set init_history_set)
  then show ?thesis
    using assms by (simp add: ingest_init init_history_idem ingest_loop_append)
qed

lemma ingest_skip_seen:
  assumes "list_all has_id xs" and "list_all has_id ys" and "set ys \<subseteq> set xs"
  shows "ingest E c (xs @ ys @ zs) b = ingest E c (xs @ zs) b"
proof -
  let ?b1 = "snd (ingest_loop E c xs (init_history c b))"
  have "list_all (key_in E c (processed_messages ?b1)) xs"
    using assms(1) by (rule ingest_loop_keys)
  then have "list_all (key_in E c (processed_messages ?b1)) ys"
    using assms(3) by (auto simp: list_all_iff)
  then have "ingest_loop E c ys ?b1 = (None, ?b1)" by (rule ingest_loop_seen)
  then show ?thesis
    using assms by (simp add: ingest_init ingest_loop_append)
qed

lemma ingest_loop_skip:
  "list_all (key_in E c (processed_messages b)) xs \<Longrightarrow>
   ingest_loop E c ys b = ingest_loop E c (filter (\<lambda>m. m \<notin> set xs) ys) b"
proof (induction ys arbitrary: b)
  case Nil
  then show ?case by simp
next
  case (Cons m ys)
  show ?case
  proof (cases "m \<in> set xs")
    case True
    then have "key_in E c (processed_messages b) m"
      using Cons.prems by (simp add: list_all_iff)
    then show ?thesis
      using True Cons by (auto simp: key_in_def split: sum.splits)
  next
    case False
    show ?thesis
    proof (cases "msg_key E c m")
      case (Inl e)
      then show ?thesis using False by simp
    next
      case (Inr k)
      have "list_all (key_in E c (processed_messages (store c m k b))) xs"
        using Cons.prems by (auto simp: list_all_iff intro: key_in_mono)
      then show ?thesis
        using False Inr Cons.IH [of b] Cons.IH [of "store c m k b"] Cons.prems by simp
    qed
  qed
qed

lemma ingest_arrival:
  assumes "list_all has_id xs"
  shows "ingest E c ys (snd (ingest E c xs b)) = ingest E c (arrival_union xs ys) b"
proof -
  let ?b1 = "snd (ingest_loop E c xs (init_history c b))"
  have "list_all (key_in E c (processed_messages ?b1)) xs"
    using assms by (rule ingest_loop_keys)
  then have "ingest_loop E c ys ?b1 = ingest_loop E c (filter (\<lambda>m. m \<notin> set xs) ys) ?b1"
    by (rule ingest_loop_skip)
  moreover have "ingest E c ys (snd (ingest E c xs b)) = ingest_loop E c ys ?b1"
    using assms ingest_twice [OF assms, of E c ys b]
    by (simp add: ingest_init ingest_loop_append)
  ultimately show ?thesis
    using assms by (simp add: arrival_union_def ingest_init ingest_loop_append)
qed

lemma history_init [simp]: "history (init_history c b) c' = history b c'"
  by (simp add: init_history_def history_def)

lemma processed_init [simp]: "processed_messages (init_history c b) = processed_messages b"
  by (simp add: init_history_def)

lemma history_mark [simp]: "history (mark_processed k b) c = history b c"
  by (simp add: mark_processed_def history_def)

lemma processed_mark [simp]:
  "processed_messages (mark_processed k b) = insert k (processed_messages b)"
  by (simp add: mark_processed_def)

lemma history_mcp [simp]: "history (b\<lparr>mcp := x\<rparr>) c = history b c"
  by (simp add: history_def)

text \<open>A property of the store that every elementary update keeps is kept by every operation.\<close>

lemma ingest_loop_keeps:
  assumes storeQ: "\<And>b m k. Q b \<Longrightarrow> msg_key E c m = Inr k \<Longrightarrow> k \<notin> processed_messages b
                     \<Longrightarrow> Q (store c m k b)"
  shows "Q b \<Longrightarrow> Q (snd (ingest_loop E c xs b))"
proof (induction xs arbitrary: b)
  case Nil
  then show ?case by simp
next
  case (Cons m xs)
  show ?case
  proof (cases "msg_key E c m")
    case (Inl e)
    then show ?thesis using Cons.prems by simp
  next
    case (Inr k)
    show ?thesis
    proof (cases "k \<in> processed_messages b")
      case True
      then show ?thesis using Inr Cons by simp
    next
      case False
      then have "Q (store c m k b)" using storeQ Cons.prems Inr by blast
      then show ?thesis using Inr False Cons.IH by simp
    qed
  qed
qed

lemma ingest_keeps:
  assumes storeQ: "\<And>b m k. Q b \<Longrightarrow> msg_key E c m = Inr k \<Longrightarrow> k \<notin> processed_messages b
                     \<Longrightarrow> Q (store c m k b)"
      and initQ: "\<And>b. Q b \<Longrightarrow> Q (init_history c b)"
  shows "Q b \<Longrightarrow> Q (snd (ingest E c xs b))"
  unfolding ingest_def using ingest_loop_keeps [of Q E c, OF storeQ] initQ by blast

lemma with_mcp_state: "\<exists>x. snd (with_mcp f b) = b\<lparr>mcp := x\<rparr>"
proof (cases "mcp b")
  case None
  then have "snd (with_mcp f b) = b\<lparr>mcp := None\<rparr>" by (simp add: with_mcp_def)
  then show ?thesis by blast
next
  case (Some c)
  then show ?thesis by (auto simp: with_mcp_def split: prod.splits)
qed

lemma with_mcp_snd:
  "mcp b = Some cl \<Longrightarrow> snd (with_mcp f b) = b\<lparr>mcp := Some (snd (f cl))\<rparr>"
  by (simp add: with_mcp_def split: prod.splits)

lemma with_mcp_none: "mcp b = None \<Longrightarrow> snd (with_mcp f b) = b"
  by (simp add: with_mcp_def)

text \<open>
  The client changes only through calls of the three operations: \<open>mcpQ\<close> below asks that
  \<open>Q\<close> survives one such call.
\<close>

lemma fetch_keeps:
  assumes mcpQ: "\<And>b cl call. Q b \<Longrightarrow> mcp b = Some cl \<Longrightarrow> Q (b\<lparr>mcp := Some (perform E cl call)\<rparr>)"
      and Q: "Q b"
  shows "Q (snd (with_mcp (get_messages E c lim) b))"
proof (cases "mcp b")
  case None
  then show ?thesis using Q by (simp add: with_mcp_none)
next
  case (Some cl)
  then show ?thesis
    using mcpQ [OF Q Some, of "GetMessages c lim"] by (simp add: with_mcp_snd)
qed

lemma send_keeps:
  assumes mcpQ: "\<And>b cl call. Q b \<Longrightarrow> mcp b = Some cl \<Longrightarrow> Q (b\<lparr>mcp := Some (perform E cl call)\<rparr>)"
      and Q: "Q b"
  shows "Q (snd (with_mcp (send_message E c reply) b))"
proof (cases "mcp b")
  case None
  then show ?thesis using Q by (simp add: with_mcp_none)
next
  case (Some cl)
  then show ?thesis
    using mcpQ [OF Q Some, of "SendMessage c reply"] by (simp add: with_mcp_snd)
qed

lemma build_context_state: "snd (build_context E cfg c ms b) = snd (ingest E c ms b)"
  by (simp add: build_context_def split: prod.splits option.splits)

lemma respond_keeps:
  assumes storeQ: "\<And>b m k. Q b \<Longrightarrow> msg_key E c m = Inr k \<Longrightarrow> k \<notin> processed_messages b
                     \<Longrightarrow> Q (store c m k b)"
      and initQ: "\<And>b. Q b \<Longrightarrow> Q (init_history c b)"
      and mcpQ: "\<And>b cl call. Q b \<Longrightarrow> mcp b = Some cl \<Longrightarrow>
                   Q (b\<lparr>mcp := Some (perform E cl call)\<rparr>)"
      and Q: "Q b"
  shows "Q (snd (respond E cfg c messages last_message content b))"
proof -
  have bc: "Q (snd (build_context E cfg c ms b))" for ms
    unfolding build_context_state using storeQ initQ Q by (rule ingest_keeps)
  show ?thesis
  proof (cases "getitem last_message ''author''")
    case (Inl e)
    then show ?thesis using Q by (simp add: respond_def)
  next
    case author: (Inr a)
    let ?text = "JStr (py_strip E (drop (length (trigger cfg)) content))"
    show ?thesis
    proof (cases "setitem last_message ''content'' ?text")
      case (Inl e)
      then show ?thesis using Q author by (simp add: respond_def)
    next
      case changed: (Inr l1)
      obtain r b1 where built: "build_context E cfg c (mutated_window messages l1) b = (r, b1)"
        by fastforce
      have Q1: "Q b1" using bc [of "mutated_window messages l1"] built by simp
      show ?thesis
      proof (cases r)
        case (Inl e)
        then show ?thesis using Q1 author changed built by (simp add: respond_def)
      next
        case (Inr ctx)
        obtain r2 b2 where
          sent: "with_mcp (send_message E c (generate_response E cfg ctx)) b1 = (r2, b2)"
          by fastforce
        have "Q b2"
          using send_keeps [of Q E b1 c "generate_response E cfg ctx", OF mcpQ Q1] sent
          by simp
        then show ?thesis
          using Inr author changed built sent by (cases r2) (simp_all add: respond_def)
      qed
    qed
  qed
qed

lemma process_channel_keeps:
  assumes storeQ: "\<And>b m k. Q b \<Longrightarrow> msg_key E c m = Inr k \<Longrightarrow> k \<notin> processed_messages b
                     \<Longrightarrow> Q (store c m k b)"
      and initQ: "\<And>b. Q b \<Longrightarrow> Q (init_history c b)"
      and mcpQ: "\<And>b cl call. Q b \<Longrightarrow> mcp b = Some cl \<Longrightarrow>
                   Q (b\<lparr>mcp := Some (perform E cl call)\<rparr>)"
      and markQ: "\<And>b k. Q b \<Longrightarrow> Q (mark_processed k b)"
      and Q: "Q b"
  shows "Q (snd (process_channel E cfg c b))"
proof -
  obtain r b1 where fetched: "with_mcp (get_messages E c 100) b = (r, b1)" by fastforce
  have Q1: "Q b1"
    using fetch_keeps [of Q E b c 100, OF mcpQ Q] fetched by simp
  have resp: "Q (snd (respond E cfg c messages last_message content b1))"
    for messages last_message content
    using storeQ initQ mcpQ Q1 by (rule respond_keeps)
  show ?thesis
    unfolding process_channel_def fetched
    by (auto split: sum.splits json.splits simp: Q1 markQ resp)
qed

lemma poll_cycle_keeps:
  assumes storeQ: "\<And>c b m k. Q b \<Longrightarrow> msg_key E c m = Inr k \<Longrightarrow> k \<notin> processed_messages b
                     \<Longrightarrow> Q (store c m k b)"
      and initQ: "\<And>c b. Q b \<Longrightarrow> Q (init_history c b)"
      and mcpQ: "\<And>b cl call. Q b \<Longrightarrow> mcp b = Some cl \<Longrightarrow>
                   Q (b\<lparr>mcp := Some (perform E cl call)\<rparr>)"
      and markQ: "\<And>b k. Q b \<Longrightarrow> Q (mark_processed k b)"
  shows "Q b \<Longrightarrow> Q (poll_cycle E cfg b)"
proof -
  have step: "Q b1 \<Longrightarrow> Q (snd (process_channel E cfg c b1))" for c b1
    using storeQ initQ mcpQ markQ by (rule process_channel_keeps)
  have "Q b1 \<Longrightarrow> Q (foldl (\<lambda>b1 channel_id.
              if py_strip E channel_id \<noteq> []
              then snd (process_channel E cfg (py_strip E channel_id) b1)
              else b1) b1 cs)" for cs b1
    by (induction cs arbitrary: b1) (simp_all add: step)
  then show "Q b \<Longrightarrow> Q (poll_cycle E cfg b)" by (simp add: poll_cycle_def)
qed

lemma poll_cycles_keeps:
  assumes storeQ: "\<And>c b m k. Q b \<Longrightarrow> msg_key E c m = Inr k \<Longrightarrow> k \<notin> processed_messages b
                     \<Longrightarrow> Q (store c m k b)"
      and initQ: "\<And>c b. Q b \<Longrightarrow> Q (init_history c b)"
      and mcpQ: "\<And>b cl call. Q b \<Longrightarrow> mcp b = Some cl \<Longrightarrow>
                   Q (b\<lparr>mcp := Some (perform E cl call)\<rparr>)"
      and markQ: "\<And>b k. Q b \<Longrightarrow> Q (mark_processed k b)"
  shows "Q b \<Longrightarrow> Q (poll_cycles E cfg n b)"
proof (induction n arbitrary: b)
  case 0
  then show ?case by simp
next
  case (Suc n)
  have "Q (poll_cycle E cfg b)"
    using storeQ initQ mcpQ markQ Suc.prems by (rule poll_cycle_keeps)
  then show ?case using Suc.IH by simp
qed

lemma store_channel_inv:
  assumes "channel_inv E c' b" and "msg_key E c m = Inr k" and "k \<notin> processed_messages b"
  shows "channel_inv E c' (store c m k b)"
proof (cases "c' = c")
  case True
  have old: "list_all (key_in E c (processed_messages b)) (history b c)"
    and dist: "distinct (map (msg_key E c) (history b c))"
    using assms(1) True by (simp_all add: channel_inv_def)
  have "Inr k \<notin> set (map (msg_key E c) (history b c))"
    using old assms(3) by (auto simp: list_all_iff key_in_def split: sum.splits)
  moreover have "list_all (key_in E c (insert k (processed_messages b))) (history b c)"
    using old by (auto simp: list_all_iff intro: key_in_mono)
  moreover have "key_in E c (insert k (processed_messages b)) m"
    using assms(2) by (simp add: key_in_def)
  ultimately show ?thesis using True dist assms(2) by (simp add: channel_inv_def)
next
  case False
  have "list_all (key_in E c' (insert k (processed_messages b))) (history b c')"
    using assms(1) by (auto simp: channel_inv_def list_all_iff intro: key_in_mono)
  then show ?thesis using False assms(1) by (simp add: channel_inv_def)
qed

lemma mark_channel_inv: "channel_inv E c b \<Longrightarrow> channel_inv E c (mark_processed k b)"
  by (auto simp: channel_inv_def list_all_iff intro: key_in_mono)

lemma init_channel_inv: "channel_inv E c b \<Longrightarrow> channel_inv E c (init_history c' b)"
  by (simp add: channel_inv_def)

lemma mcp_channel_inv: "channel_inv E c b \<Longrightarrow> channel_inv E c (b\<lparr>mcp := x\<rparr>)"
  by (simp add: channel_inv_def)

lemma ingest_channel_inv: "channel_inv E c' b \<Longrightarrow> channel_inv E c' (snd (ingest E c xs b))"
  by (rule ingest_keeps [where Q = "channel_inv E c'"])
     (auto intro: store_channel_inv init_channel_inv)

lemma new_bot_inv: "channel_inv E c new_bot"
  by (simp add: channel_inv_def new_bot_def history_def)

section \<open>C1: ingestion is idempotent\<close>

text \<open>
  Claim C1. Let \<open>S\<close> be the message sequence of a channel, its messages carrying ids with
  pairwise different composite keys, and let \<open>W1 = S[i1:j1]\<close> and \<open>W2 = S[i2:j2]\<close> be any
  two windows of it (overlapping, touching or apart). From every store that satisfies the
  channel invariant, ingesting \<open>W1\<close> and then \<open>W2\<close> gives the same bot state, and so the
  same stored history, as ingesting once the union of the two windows in arrival order:
  \<open>W1\<close> followed by the messages of \<open>W2\<close> not yet seen. When \<open>W2\<close> is fetched after \<open>W1\<close>
  (it neither starts nor ends before \<open>W1\<close>, as with successive fetches of the most recent
  messages), this union is the union in the order of \<open>S\<close>. Neither ingestion raises, and
  the resulting history of the channel has no two entries with the same composite key.
\<close>

theorem ingest_idempotent:
  assumes ids: "list_all has_id S"
      and keys: "distinct (map (msg_key E c) S)"
      and inv: "channel_inv E c b"
  shows "ingest E c (window S i2 j2) (snd (ingest E c (window S i1 j1) b)) =
           ingest E c (arrival_union (window S i1 j1) (window S i2 j2)) b \<and>
         (i1 \<le> i2 \<and> j1 \<le> j2 \<longrightarrow>
            arrival_union (window S i1 j1) (window S i2 j2) =
              window_union S (window S i1 j1) (window S i2 j2)) \<and>
         fst (ingest E c (window S i2 j2) (snd (ingest E c (window S i1 j1) b))) = None \<and>
         distinct (map (msg_key E c)
           (history (snd (ingest E c (window S i2 j2) (snd (ingest E c (window S i1 j1) b)))) c))"
proof -
  let ?W1 = "window S i1 j1" and ?W2 = "window S i2 j2"
  have dS: "distinct S" using keys by (simp add: distinct_map)
  have in_S: "set (window S i j) \<subseteq> set S" for i j
    unfolding window_def by (meson set_drop_subset set_take_subset subset_trans)
  have w_ids: "list_all has_id (window S i j)" for i j
    using ids in_S [of i j] by (auto simp: list_all_iff)
  have eq: "ingest E c ?W2 (snd (ingest E c ?W1 b)) = ingest E c (arrival_union ?W1 ?W2) b"
    using w_ids by (rule ingest_arrival)
  have ok: "fst (ingest E c ?W2 (snd (ingest E c ?W1 b))) = None"
    using w_ids by (simp add: ingest_init ingest_loop_ok)
  have "channel_inv E c (snd (ingest E c ?W2 (snd (ingest E c ?W1 b))))"
    using inv by (intro ingest_channel_inv)
  then show ?thesis using eq ok arrival_is_union [OF dS] by (simp add: channel_inv_def)
qed

lemma sample_has_id: "list_all has_id sample_messages"
  by (simp add: sample_messages_def message_def has_id_def)

lemma sample_keys: "distinct (map (msg_key sample_env ''42'') sample_messages)"
  by (simp add: sample_messages_def message_def msg_key_def and_then_def fstr_def)

theorem ingest_idempotent_witness:
  "ingest sample_env ''42'' (window sample_messages 1 3)
     (snd (ingest sample_env ''42'' (window sample_messages 0 2) new_bot)) =
   ingest sample_env ''42'' sample_messages new_bot \<and>
   arrival_union (window sample_messages 0 2) (window sample_messages 1 3) = sample_messages \<and>
   history (snd (ingest sample_env ''42'' sample_messages new_bot)) ''42'' = sample_messages"
proof -
  have u: "window_union sample_messages (window sample_messages 0 2) (window sample_messages 1 3)
             = sample_messages"
    by (simp add: window_union_def window_def sample_messages_def message_def)
  have h: "history (snd (ingest sample_env ''42'' sample_messages new_bot)) ''42'' = sample_messages"
    by (simp add: ingest_def init_history_def new_bot_def sample_messages_def message_def
          msg_key_def and_then_def fstr_def store_def history_def)
  have order: "(0::nat) \<le> 1 \<and> (2::nat) \<le> 3" by simp
  show ?thesis
    using ingest_idempotent [OF sample_has_id sample_keys new_bot_inv,
            where ?i1.0 = 0 and ?j1.0 = 2 and ?i2.0 = 1 and ?j2.0 = 3] order u h
    by simp
qed

section \<open>C2: the invariant of the store\<close>

lemma grown_refl: "grown E c b b"
  by (simp add: grown_def)

lemma grown_store:
  "grown E c b b1 \<Longrightarrow> msg_key E c2 m = Inr k \<Longrightarrow> k \<notin> processed_messages b1 \<Longrightarrow>
   grown E c b (store c2 m k b1)"
  by (auto simp: grown_def intro: store_channel_inv)

lemma grown_init: "grown E c b b1 \<Longrightarrow> grown E c b (init_history c2 b1)"
  by (simp add: grown_def init_channel_inv)

lemma grown_mark: "grown E c b b1 \<Longrightarrow> grown E c b (mark_processed k b1)"
  by (auto simp: grown_def mark_channel_inv)

lemma grown_mcp: "grown E c b b1 \<Longrightarrow> grown E c b (b1\<lparr>mcp := x\<rparr>)"
  by (simp add: grown_def mcp_channel_inv)

lemma grown_ingest: "grown E c b b1 \<Longrightarrow> grown E c b (snd (ingest E c2 xs b1))"
  by (rule ingest_keeps [where Q = "grown E c b"]) (auto intro: grown_store grown_init)

lemma grown_ops: "grown E c b (foldl (apply_op E) b ops)"
proof (induction ops rule: rev_induct)
  case Nil
  then show ?case by (simp add: grown_refl)
next
  case (snoc op ops)
  then have "grown E c b (foldl (apply_op E) b ops)" by simp
  then show ?case by (cases op) (simp_all add: grown_ingest grown_mark)
qed

lemma grown_poll_cycles: "grown E c b (poll_cycles E cfg n b)"
  by (rule poll_cycles_keeps [where Q = "grown E c b"])
     (auto intro: grown_store grown_init grown_mark grown_mcp grown_refl)

lemma ingest_one:
  assumes "msg_key E c m = Inr k"
  shows "history (snd (ingest E c [m] b)) c =
           (if k \<in> processed_messages b then history b c else history b c @ [m]) \<and>
         processed_messages (snd (ingest E c [m] b)) = insert k (processed_messages b)"
  using assms by (auto simp: ingest_def)

lemma ingest_snoc:
  assumes "list_all has_id ms"
  shows "ingest E c (ms @ [m]) b = ingest E c [m] (snd (ingest E c ms b))"
  using assms by (simp add: ingest_twice)

text \<open>
  Claim C2. Take any sequence of ingest and mark-processed operations, and any number of
  poll cycles of the whole bot, from any state \<open>b\<close>. The processed set only grows, the old
  history of every channel \<open>c\<close> is a prefix of the new one (no entry is removed or
  reordered), and if in \<open>b\<close> the key of every stored message of \<open>c\<close> is in the processed
  set, without duplicates, the same holds afterwards. Moreover a message \<open>m\<close> with key \<open>k\<close>
  that is ingested after the messages \<open>ms\<close> is appended to the history exactly when \<open>k\<close>
  is not in the processed set at that moment, and \<open>k\<close> is in the processed set afterwards
  in both cases: the append and the insertion of the key are one step.
\<close>

theorem store_invariant:
  "processed_messages b \<subseteq> processed_messages (foldl (apply_op E) b ops) \<and>
   prefix (history b c) (history (foldl (apply_op E) b ops) c) \<and>
   (channel_inv E c b \<longrightarrow> channel_inv E c (foldl (apply_op E) b ops)) \<and>
   processed_messages b \<subseteq> processed_messages (poll_cycles E cfg n b) \<and>
   prefix (history b c) (history (poll_cycles E cfg n b) c) \<and>
   (channel_inv E c b \<longrightarrow> channel_inv E c (poll_cycles E cfg n b)) \<and>
   (list_all has_id ms \<and> msg_key E c m = Inr k \<longrightarrow>
      history (snd (ingest E c (ms @ [m]) b)) c =
        (if k \<in> processed_messages (snd (ingest E c ms b))
         then history (snd (ingest E c ms b)) c
         else history (snd (ingest E c ms b)) c @ [m]) \<and>
      processed_messages (snd (ingest E c (ms @ [m]) b)) =
        insert k (processed_messages (snd (ingest E c ms b))))"
  using grown_ops [of E c b ops] grown_poll_cycles [of E c b cfg n]
  by (simp add: grown_def ingest_snoc ingest_one)

theorem store_invariant_witness:
  "processed_messages new_bot \<subseteq>
     processed_messages (foldl (apply_op sample_env) new_bot
        [MarkProcessed ''42:1'', Ingest ''42'' sample_messages]) \<and>
   prefix (history new_bot ''42'')
     (history (foldl (apply_op sample_env) new_bot
        [MarkProcessed ''42:1'', Ingest ''42'' sample_messages]) ''42'') \<and>
   channel_inv sample_env ''42'' (foldl (apply_op sample_env) new_bot
        [MarkProcessed ''42:1'', Ingest ''42'' sample_messages]) \<and>
   channel_inv sample_env ''42'' (poll_cycles sample_env sample_config 2 new_bot) \<and>
   history (snd (ingest sample_env ''42'' ([message ''1'' ''alice'' ''hello''] @
        [message ''2'' ''bob'' ''hi'']) new_bot)) ''42'' =
     history (snd (ingest sample_env ''42'' [message ''1'' ''alice'' ''hello''] new_bot)) ''42'' @
       [message ''2'' ''bob'' ''hi'']"
proof -
  let ?m1 = "message ''1'' ''alice'' ''hello''" and ?m2 = "message ''2'' ''bob'' ''hi''"
  have ids: "list_all has_id [?m1]" by (simp add: message_def has_id_def)
  have key: "msg_key sample_env ''42'' ?m2 = Inr ''42:2''"
    by (simp add: message_def msg_key_def and_then_def fstr_def)
  have fresh: "''42:2'' \<notin> processed_messages (snd (ingest sample_env ''42'' [?m1] new_bot))"
    by (simp add: ingest_def init_history_def new_bot_def message_def msg_key_def
          and_then_def fstr_def)
  show ?thesis
    using store_invariant [of new_bot sample_env
            "[MarkProcessed ''42:1'', Ingest ''42'' sample_messages]" "''42''"
            sample_config 2 "[?m1]" ?m2 "''42:2''"]
          new_bot_inv [of sample_env "''42''"] ids key fresh
    by simp
qed

section \<open>C5: request ids\<close>

lemma send_request_effect:
  assumes "process c = Some p"
  shows "request_id (snd (send_request E method params c)) = request_id c + 1 \<and>
         written (snd (send_request E method params c)) =
           written c @ [make_request (request_id c + 1) method params] \<and>
         process (snd (send_request E method params c)) \<noteq> None"
  using assms
  by (auto simp: send_request_def next_id_def readline_def written_def Let_def
           split: list.splits)

lemma get_messages_state:
  "snd (get_messages E ch lim c) =
   snd (call_tool E ''read_discord_messages''
          (JObj [(''channel_id'', JStr ch), (''limit'', JNum lim)]) c)"
  by (simp add: get_messages_def split: prod.splits sum.splits)

lemma list_channels_state:
  "snd (list_channels E c) = snd (call_tool E ''list_discord_channels'' (JObj []) c)"
  by (simp add: list_channels_def split: prod.splits sum.splits)

lemma id_make_request [simp]: "getitem (make_request i method params) ''id'' = Inr (JNum i)"
  by (simp add: make_request_def)

lemma perform_effect:
  assumes "process c \<noteq> None"
  shows "request_id (perform E c call) = request_id c + 1 \<and>
         sent_ids (perform E c call) = sent_ids c @ [Inr (JNum (request_id c + 1))] \<and>
         process (perform E c call) \<noteq> None"
proof -
  obtain p where p: "process c = Some p" using assms by blast
  show ?thesis
    by (cases call)
       (simp_all add: get_messages_state list_channels_state send_message_def call_tool_def
          sent_ids_def send_request_effect [OF p])
qed

lemma perform_all:
  assumes "process c \<noteq> None"
  shows "request_id (foldl (perform E) c calls) = request_id c + int (length calls) \<and>
         sent_ids (foldl (perform E) c calls) =
           sent_ids c @ map (\<lambda>n. Inr (JNum (request_id c + int n))) [1..<Suc (length calls)] \<and>
         process (foldl (perform E) c calls) \<noteq> None"
proof (induction calls rule: rev_induct)
  case Nil
  then show ?case using assms by simp
next
  case (snoc call calls)
  then show ?case
    using perform_effect [of "foldl (perform E) c calls" E call] by simp
qed

text \<open>
  Claim C5. On a client whose child process has been started and that has sent nothing
  yet, any sequence of calls of the three operations, with any arguments and whatever the
  child answers (also when the answer is an error, cannot be decoded, or the stream is
  closed), writes requests whose ids are \<open>1, 2, 3, \<dots>\<close>: the n-th call is sent with id
  \<open>n\<close>. Python integers are unbounded, so the counter never wraps.
\<close>

theorem monotonic_request_ids:
  assumes "process c = Some p" and "request_id c = 0" and "stdin_written p = []"
  shows "sent_ids (foldl (perform E) c calls) =
           map (\<lambda>n. Inr (JNum (int n))) [1..<Suc (length calls)]"
  using perform_all [of c E calls] assms by (simp add: sent_ids_def written_def)

theorem monotonic_request_ids_witness:
  "sent_ids (foldl (perform sample_env) \<lparr>process = Some (child []), request_id = 0\<rparr>
      [ListChannels, GetMessages ''42'' 100, SendMessage ''42'' ''hi'']) =
   [Inr (JNum 1), Inr (JNum 2), Inr (JNum 3)]"
proof -
  have "map (\<lambda>n. Inr (JNum (int n)) :: error + json) [1..<Suc 3] =
          [Inr (JNum 1), Inr (JNum 2), Inr (JNum 3)]"
    by (simp add: upt_rec)
  then show ?thesis
    using monotonic_request_ids [of "\<lparr>process = Some (child []), request_id = 0\<rparr>" "child []"
            sample_env "[ListChannels, GetMessages ''42'' 100, SendMessage ''42'' ''hi'']"]
    by (simp add: child_def)
qed

section \<open>C10: missing fields of the tool result\<close>

lemma first_without_text_default:
  "first_without_text content_list \<Longrightarrow>
   and_then (first_item content_list) (\<lambda>item. dict_get item ''text'' (JStr ''{}'')) =
     Inr (JStr ''{}'')"
  by (induction content_list rule: first_without_text.induct) (simp_all add: and_then_def)

lemma inner_text_default:
  assumes "lacks_content result \<or> first_lacks_text result"
  shows "inner_text result = Inr (JStr ''{}'')"
proof (cases result)
  case (JObj kvs)
  show ?thesis
  proof (cases "map_of kvs ''content''")
    case None
    then show ?thesis using JObj by (simp add: inner_text_def and_then_def)
  next
    case (Some content_list)
    then have "first_without_text content_list"
      using assms JObj by (simp add: lacks_content_def first_lacks_text_def)
    then show ?thesis
      using JObj Some first_without_text_default [of content_list]
      by (simp add: inner_text_def and_then_def)
  qed
qed (use assms in \<open>simp_all add: lacks_content_def first_lacks_text_def\<close>)

lemma inner_payload_default:
  assumes "json_loads E ''{}'' = Some (JObj [])"
      and "lacks_content result \<or> first_lacks_text result"
  shows "inner_payload E result key = Inr (JArr [])"
  using assms(1) inner_text_default [OF assms(2)]
  by (simp add: inner_payload_def loads_value_def and_then_def)

text \<open>
  Claim C10. If \<open>json.loads('{}')\<close> is the empty object (as it is), and the result of the
  tool call has no \<open>content\<close> entry, or its \<open>content\<close> list starts with an object that has
  no \<open>text\<close> entry, then \<open>get_messages\<close> and \<open>list_channels\<close> return the empty list and
  raise nothing.
\<close>

theorem missing_field_tolerance:
  assumes "json_loads E ''{}'' = Some (JObj [])"
      and "lacks_content result \<or> first_lacks_text result"
  shows "(call_tool E ''read_discord_messages''
            (JObj [(''channel_id'', JStr channel_id), (''limit'', JNum limit)]) c = (Inr result, c1)
          \<longrightarrow> get_messages E channel_id limit c = (Inr (JArr []), c1)) \<and>
         (call_tool E ''list_discord_channels'' (JObj []) c = (Inr result, c1)
          \<longrightarrow> list_channels E c = (Inr (JArr []), c1))"
  using inner_payload_default [OF assms]
  by (simp add: get_messages_def list_channels_def)

lemma send_request_reply:
  assumes "process c = Some p" and "\<not> stdin_lost p" and "stdout_lines p = line # rest"
  shows "send_request E method params c =
           (decode_response E line,
            \<lparr>process = Some (p\<lparr>stdin_written :=
                                  stdin_written p @ [make_request (request_id c + 1) method params],
                                stdout_lines := rest\<rparr>),
             request_id = request_id c + 1\<rparr>)"
  using assms by (simp add: send_request_def next_id_def readline_def Let_def)

lemma send_request_eof:
  assumes "process c = Some p" and "\<not> stdin_lost p" and "stdout_lines p = []"
  shows "send_request E method params c =
           (decode_response E [],
            \<lparr>process = Some (p\<lparr>stdin_written :=
                                  stdin_written p @ [make_request (request_id c + 1) method params]\<rparr>),
             request_id = request_id c + 1\<rparr>)"
  using assms by (simp add: send_request_def next_id_def readline_def Let_def)

lemma sample_loads_empty_object: "json_loads sample_env ''{}'' = Some (JObj [])"
  by (simp add: sample_env_def sample_loads_def)

lemma sample_decode_ok: "decode_response sample_env ok_line = Inr (JObj [])"
  by (simp add: decode_response_def sample_env_def sample_loads_def ok_line_def quoted_def
        and_then_def)

theorem missing_field_tolerance_witness:
  "get_messages sample_env ''42'' 100 \<lparr>process = Some (child [ok_line]), request_id = 0\<rparr> =
     (Inr (JArr []),
      \<lparr>process = Some ((child [ok_line])
           \<lparr>stdin_written := stdin_written (child [ok_line]) @
              [make_request (0 + 1) ''tools/call''
                 (JObj [(''name'', JStr ''read_discord_messages''),
                        (''arguments'', JObj [(''channel_id'', JStr ''42''), (''limit'', JNum 100)])])],
            stdout_lines := []\<rparr>),
       request_id = 0 + 1\<rparr>) \<and>
   list_channels sample_env \<lparr>process = Some (child [ok_line]), request_id = 0\<rparr> =
     (Inr (JArr []),
      \<lparr>process = Some ((child [ok_line])
           \<lparr>stdin_written := stdin_written (child [ok_line]) @
              [make_request (0 + 1) ''tools/call''
                 (JObj [(''name'', JStr ''list_discord_channels''), (''arguments'', JObj [])])],
            stdout_lines := []\<rparr>),
       request_id = 0 + 1\<rparr>)"
proof -
  let ?c = "\<lparr>process = Some (child [ok_line]), request_id = 0\<rparr>"
  have lacks: "lacks_content (JObj []) \<or> first_lacks_text (JObj [])"
    by (simp add: lacks_content_def)
  have call: "call_tool sample_env name arguments ?c =
      (Inr (JObj []),
       \<lparr>process = Some ((child [ok_line])
            \<lparr>stdin_written := stdin_written (child [ok_line]) @
               [make_request (0 + 1) ''tools/call''
                  (JObj [(''name'', JStr name), (''arguments'', arguments)])],
             stdout_lines := []\<rparr>),
        request_id = 0 + 1\<rparr>)" for name arguments
    using send_request_reply [of ?c "child [ok_line]" ok_line "[]" sample_env]
    by (simp add: call_tool_def child_def sample_decode_ok)
  show ?thesis
    using missing_field_tolerance [OF sample_loads_empty_object lacks, of "''42''" 100 ?c]
          call
    by simp
qed

section \<open>One fetch\<close>

lemma get_messages_result:
  "get_messages E ch lim c =
     (and_then (fst (call_tool E ''read_discord_messages''
                  (JObj [(''channel_id'', JStr ch), (''limit'', JNum lim)]) c))
               (\<lambda>result. inner_payload E result ''messages''),
      snd (call_tool E ''read_discord_messages''
                  (JObj [(''channel_id'', JStr ch), (''limit'', JNum lim)]) c))"
  by (simp add: get_messages_def and_then_def split: prod.splits sum.splits)

lemma fetch_reply:
  assumes "mcp b = Some cl" and "process cl = Some p" and "\<not> stdin_lost p"
      and "stdout_lines p = line # rest"
  shows "with_mcp (get_messages E c lim) b =
           (and_then (decode_response E line) (\<lambda>result. inner_payload E result ''messages''),
            b\<lparr>mcp := Some \<lparr>process = Some (p\<lparr>stdin_written :=
                                stdin_written p @ [fetch_request (request_id cl + 1) c lim],
                              stdout_lines := rest\<rparr>),
                          request_id = request_id cl + 1\<rparr>\<rparr>)"
  using assms
  by (simp add: with_mcp_def get_messages_result call_tool_def fetch_request_def
        send_request_reply [OF assms(2,3,4)])

lemma fetch_eof:
  assumes "mcp b = Some cl" and "process cl = Some p" and "\<not> stdin_lost p"
      and "stdout_lines p = []"
  shows "with_mcp (get_messages E c lim) b =
           (and_then (decode_response E []) (\<lambda>result. inner_payload E result ''messages''),
            b\<lparr>mcp := Some \<lparr>process = Some (p\<lparr>stdin_written :=
                                stdin_written p @ [fetch_request (request_id cl + 1) c lim]\<rparr>),
                          request_id = request_id cl + 1\<rparr>\<rparr>)"
  using assms
  by (simp add: with_mcp_def get_messages_result call_tool_def fetch_request_def
        send_request_eof [OF assms(2,3,4)])

lemma fetch_lost:
  assumes "mcp b = Some cl" and "process cl = Some p" and "stdin_lost p"
  shows "with_mcp (get_messages E c lim) b =
           (Inl ConnectionResetError,
            b\<lparr>mcp := Some \<lparr>process = Some (p\<lparr>stdin_written :=
                                stdin_written p @ [fetch_request (request_id cl + 1) c lim]\<rparr>),
                          request_id = request_id cl + 1\<rparr>\<rparr>)"
  using assms
  by (simp add: with_mcp_def get_messages_result call_tool_def fetch_request_def
        send_request_def next_id_def Let_def and_then_def)

lemma process_channel_fetch_error:
  "with_mcp (get_messages E c 100) b = (Inl e, b1) \<Longrightarrow> process_channel E cfg c b = (Some e, b1)"
  by (simp add: process_channel_def)


section \<open>C7: a closed output stream\<close>

lemma closed_step:
  assumes loads: "json_loads E [] = None" and closed: "closed_output b"
  shows "fst (process_channel E cfg c b) \<in> {Some JSONDecodeError, Some ConnectionResetError} \<and>
         closed_output (snd (process_channel E cfg c b)) \<and>
         conversation_history (snd (process_channel E cfg c b)) = conversation_history b \<and>
         processed_messages (snd (process_channel E cfg c b)) = processed_messages b \<and>
         length (bot_written (snd (process_channel E cfg c b))) = Suc (length (bot_written b))"
proof -
  obtain cl p where cl: "mcp b = Some cl" and p: "process cl = Some p"
    and eof: "stdout_lines p = []" and live: "\<not> terminated p"
    using closed by (auto simp: closed_output_def split: option.splits)
  have dec: "decode_response E [] = Inl JSONDecodeError"
    using loads by (simp add: decode_response_def)
  show ?thesis
  proof (cases "stdin_lost p")
    case True
    show ?thesis
      using process_channel_fetch_error [OF fetch_lost [OF cl p True], where cfg = cfg and E = E
              and c = c] cl p eof live
      by (simp add: closed_output_def bot_written_def written_def)
  next
    case False
    have "with_mcp (get_messages E c 100) b =
           (Inl JSONDecodeError,
            b\<lparr>mcp := Some \<lparr>process = Some (p\<lparr>stdin_written :=
                                stdin_written p @ [fetch_request (request_id cl + 1) c 100]\<rparr>),
                          request_id = request_id cl + 1\<rparr>\<rparr>)"
      using fetch_eof [OF cl p False eof, of E c 100] dec by (simp add: and_then_def)
    then show ?thesis
      using process_channel_fetch_error [where E = E and c = c and b = b and cfg = cfg
              and e = JSONDecodeError] cl p eof live
      by (simp add: closed_output_def bot_written_def written_def)
  qed
qed

lemma closed_fold:
  assumes loads: "json_loads E [] = None"
  shows "closed_output b \<Longrightarrow>
     closed_output (foldl (\<lambda>b1 channel_id.
              if py_strip E channel_id \<noteq> []
              then snd (process_channel E cfg (py_strip E channel_id) b1)
              else b1) b cs) \<and>
     conversation_history (foldl (\<lambda>b1 channel_id.
              if py_strip E channel_id \<noteq> []
              then snd (process_channel E cfg (py_strip E channel_id) b1)
              else b1) b cs) = conversation_history b \<and>
     processed_messages (foldl (\<lambda>b1 channel_id.
              if py_strip E channel_id \<noteq> []
              then snd (process_channel E cfg (py_strip E channel_id) b1)
              else b1) b cs) = processed_messages b \<and>
     length (bot_written (foldl (\<lambda>b1 channel_id.
              if py_strip E channel_id \<noteq> []
              then snd (process_channel E cfg (py_strip E channel_id) b1)
              else b1) b cs)) =
       length (bot_written b) + length (filter (\<lambda>channel_id. py_strip E channel_id \<noteq> []) cs)"
proof (induction cs arbitrary: b)
  case Nil
  then show ?case by simp
next
  case (Cons ch cs)
  show ?case
  proof (cases "py_strip E ch \<noteq> []")
    case True
    let ?b1 = "snd (process_channel E cfg (py_strip E ch) b)"
    have s: "closed_output ?b1" "conversation_history ?b1 = conversation_history b"
      "processed_messages ?b1 = processed_messages b"
      "length (bot_written ?b1) = Suc (length (bot_written b))"
      using closed_step [OF loads Cons.prems, where cfg = cfg and c = "py_strip E ch"]
      by simp_all
    show ?thesis using Cons.IH [OF s(1)] s True by simp
  next
    case False
    then show ?thesis using Cons.IH [OF Cons.prems] by simp
  qed
qed

lemma closed_cycle:
  assumes "json_loads E [] = None" and "closed_output b"
  shows "closed_output (poll_cycle E cfg b) \<and>
         conversation_history (poll_cycle E cfg b) = conversation_history b \<and>
         processed_messages (poll_cycle E cfg b) = processed_messages b \<and>
         length (bot_written (poll_cycle E cfg b)) =
           length (bot_written b) + length (watched E cfg)"
  using closed_fold [OF assms, where cfg = cfg and cs = "channels cfg"]
  by (simp add: poll_cycle_def watched_def)

lemma closed_cycles:
  assumes loads: "json_loads E [] = None"
  shows "closed_output b \<Longrightarrow>
         closed_output (poll_cycles E cfg n b) \<and>
         conversation_history (poll_cycles E cfg n b) = conversation_history b \<and>
         processed_messages (poll_cycles E cfg n b) = processed_messages b \<and>
         length (bot_written (poll_cycles E cfg n b)) =
           length (bot_written b) + n * length (watched E cfg)"
proof (induction n arbitrary: b)
  case 0
  then show ?case by simp
next
  case (Suc n)
  have s: "closed_output (poll_cycle E cfg b)"
    "conversation_history (poll_cycle E cfg b) = conversation_history b"
    "processed_messages (poll_cycle E cfg b) = processed_messages b"
    "length (bot_written (poll_cycle E cfg b)) = length (bot_written b) + length (watched E cfg)"
    using closed_cycle [OF loads Suc.prems, where cfg = cfg] by simp_all
  show ?case using Suc.IH [OF s(1)] s by simp
qed

lemma bot_written_stop [simp]: "bot_written (stop_mcp b) = bot_written b"
  by (simp add: bot_written_def stop_mcp_def stop_def written_def split: option.splits)

lemma run_polls:
  "channels cfg \<noteq> [] \<Longrightarrow> channels cfg \<noteq> [[]] \<Longrightarrow>
   snd (run E cfg n sig b) = stop_mcp (poll_cycles E cfg n b)"
  by (simp add: run_def)

text \<open>
  Claim C7, as the code has it. Suppose the child has closed its output stream (and
  \<open>json.loads('')\<close> raises, as it does). Then \<open>_process_channel\<close> does not fail: the empty
  line read at end of file cannot be decoded (or, when the pipe to the child's stdin is
  lost, \<open>drain\<close> raises), and the handler of \<open>_process_channel\<close> catches that exception.
  The store is unchanged, the child is not sent the termination signal, and the loop goes
  on: after any number \<open>n\<close> of further poll cycles the stream is still closed, the child
  still not terminated, and one more request has been written for every watched channel
  in every cycle. The loop is left, and \<open>stop()\<close> called, only when the interrupt arrives.
\<close>

theorem closed_stream_is_polled_on:
  assumes "json_loads E [] = None" and "closed_output b"
  shows "fst (process_channel E cfg c b) \<in> {Some JSONDecodeError, Some ConnectionResetError} \<and>
         closed_output (poll_cycles E cfg n b) \<and>
         conversation_history (poll_cycles E cfg n b) = conversation_history b \<and>
         processed_messages (poll_cycles E cfg n b) = processed_messages b \<and>
         length (bot_written (poll_cycles E cfg n b)) =
           length (bot_written b) + n * length (watched E cfg) \<and>
         (channels cfg \<noteq> [] \<and> channels cfg \<noteq> [[]] \<longrightarrow>
            length (bot_written (snd (run E cfg n sig b))) =
              length (bot_written b) + n * length (watched E cfg))"
  using closed_step [OF assms, where cfg = cfg and c = c]
        closed_cycles [OF assms, where cfg = cfg and n = n]
  by (simp add: run_polls)

lemma sample_loads_empty_line: "json_loads sample_env [] = None"
  by (simp add: sample_env_def sample_loads_def ok_line_def hello_text_def ask_text_def
        none_text_def payload_text_def result_line_def)

lemma sample_closed: "closed_output (sample_bot [])"
  by (simp add: closed_output_def sample_bot_def child_def new_bot_def)

lemma sample_watched: "watched sample_env sample_config = [''42'']"
  by (simp add: watched_def sample_config_def sample_env_def ascii_strip_def ascii_space_def)

text \<open>
  Claim C7 as the specification states it (a closed stream is fatal for the polling loop,
  which shuts the transport down and terminates) fails: with the output stream closed from
  the start, the cycle of channel \<open>42\<close> ends with the decode error caught, three poll
  cycles later three requests have been written to the dead process, and it has not been
  sent the termination signal.
\<close>

theorem closed_stream_counterexample:
  "fst (process_channel sample_env sample_config ''42'' (sample_bot [])) = Some JSONDecodeError \<and>
   length (bot_written (poll_cycles sample_env sample_config 3 (sample_bot []))) = 3 \<and>
   closed_output (poll_cycles sample_env sample_config 3 (sample_bot []))"
proof -
  have "fst (process_channel sample_env sample_config ''42'' (sample_bot [])) =
          Some JSONDecodeError"
    using process_channel_fetch_error [where E = sample_env and c = "''42''"
            and b = "sample_bot []" and e = JSONDecodeError and cfg = sample_config]
          fetch_eof [where b = "sample_bot []" and p = "child []" and E = sample_env
            and c = "''42''" and lim = 100]
          sample_loads_empty_line
    by (simp add: sample_bot_def child_def new_bot_def decode_response_def and_then_def)
  moreover have "bot_written (sample_bot []) = []"
    by (simp add: bot_written_def written_def sample_bot_def child_def new_bot_def)
  ultimately show ?thesis
    using closed_cycles [OF sample_loads_empty_line sample_closed, where cfg = sample_config
            and n = 3]
          sample_watched
    by simp
qed

theorem closed_stream_is_polled_on_witness:
  "closed_output (poll_cycles sample_env sample_config 2 (sample_bot [])) \<and>
   processed_messages (poll_cycles sample_env sample_config 2 (sample_bot [])) =
     processed_messages (sample_bot []) \<and>
   length (bot_written (snd (run sample_env sample_config 2 KeyboardInterrupt (sample_bot [])))) =
     length (bot_written (sample_bot [])) + 2 * length (watched sample_env sample_config)"
proof -
  have "channels sample_config \<noteq> [] \<and> channels sample_config \<noteq> [[]]"
    by (simp add: sample_config_def)
  then show ?thesis
    using closed_stream_is_polled_on [OF sample_loads_empty_line sample_closed,
            where cfg = sample_config and n = 2 and sig = KeyboardInterrupt]
    by simp
qed

section \<open>C8: a malformed inner payload\<close>


lemma single_channel_cycle:
  assumes "channels cfg = [c]" and "py_strip E c = c" and "c \<noteq> []"
  shows "poll_cycle E cfg b = snd (process_channel E cfg c b)"
  using assms by (simp add: poll_cycle_def)







section \<open>C6: the generation backend fails\<close>

lemma map_of_replace:
  "map_of (map (\<lambda>(k', v'). if k' = k then (k', v) else (k', v')) kvs) x =
     (if x = k then (case map_of kvs k of None \<Rightarrow> None | Some old \<Rightarrow> Some v) else map_of kvs x)"
  by (induction kvs) (auto split: option.splits)

lemma getitem_setitem:
  assumes "setitem msg k v = Inr msg1"
  shows "getitem msg1 x = (if x = k then Inr v else getitem msg x)"
proof (cases msg)
  case (JObj kvs)
  show ?thesis
  proof (cases "map_of kvs k")
    case None
    then show ?thesis using assms JObj by (auto simp: map_add_def split: option.splits)
  next
    case (Some old)
    then show ?thesis using assms JObj by (auto simp: map_of_replace)
  qed
qed (use assms in simp_all)

lemma setitem_total:
  assumes "getitem msg x = Inr w"
  shows "\<exists>msg1. setitem msg k v = Inr msg1"
  using assms by (cases msg) simp_all

lemma stripped_message_fields:
  assumes "getitem msg ''content'' = Inr w"
  shows "setitem msg ''content'' (JStr (stripped_content E cfg s)) = Inr (stripped_message E cfg msg s)"
    and "getitem (stripped_message E cfg msg s) x =
           (if x = ''content'' then Inr (JStr (stripped_content E cfg s)) else getitem msg x)"
proof -
  obtain msg1 where m: "setitem msg ''content'' (JStr (stripped_content E cfg s)) = Inr msg1"
    using setitem_total [OF assms] by blast
  then show "setitem msg ''content'' (JStr (stripped_content E cfg s)) =
               Inr (stripped_message E cfg msg s)"
    by (simp add: stripped_message_def)
  show "getitem (stripped_message E cfg msg s) x =
           (if x = ''content'' then Inr (JStr (stripped_content E cfg s)) else getitem msg x)"
    using getitem_setitem [OF m] m by (simp add: stripped_message_def)
qed

lemma process_channel_triggered:
  assumes "with_mcp (get_messages E c 100) b = (Inr (JArr ms), b1)" and "ms \<noteq> []"
      and "msg_key E c (last ms) = Inr k" and "k \<notin> processed_messages b1"
      and "getitem (last ms) ''content'' = Inr (JStr s)"
  shows "process_channel E cfg c b =
           (if startswith s (trigger cfg) then respond E cfg c (JArr ms) (last ms) s b1
            else (None, mark_processed k b1))"
  using assms by (simp add: process_channel_def)

lemma respond_built:
  assumes "getitem last_message ''author'' = Inr a"
      and "getitem last_message ''content'' = Inr w"
      and "build_context E cfg c (butlast ms @ [stripped_message E cfg last_message s]) b1 =
             (Inr ctx, b2)"
  shows "respond E cfg c (JArr ms) last_message s b1 =
           (case with_mcp (send_message E c (generate_response E cfg ctx)) b2 of
              (Inl e, b3) \<Rightarrow> (Some e, b3)
            | (Inr sent, b3) \<Rightarrow> (None, b3))"
  using assms stripped_message_fields(1) [OF assms(2), of E cfg s]
  by (simp add: respond_def mutated_window_def stripped_content_def)

lemma send_written:
  assumes "mcp b = Some cl" and "process cl = Some p"
  shows "bot_written (snd (with_mcp (send_message E c text) b)) =
           bot_written b @ [reply_request (request_id cl + 1) c text]"
  using assms(1) send_request_effect [OF assms(2), of E "''tools/call''"
          "JObj [(''name'', JStr ''send_discord_message''),
                 (''arguments'', JObj [(''channel_id'', JStr c), (''message'', JStr text)])]"]
  by (simp add: with_mcp_snd [OF assms(1)] send_message_def call_tool_def bot_written_def
        reply_request_def)

text \<open>
  Claim C6. Take a poll cycle that reaches the generation step: the fetch returned a
  non-empty list \<open>ms\<close> whose last message is new, has an author and a content that starts
  with the trigger, and \<open>_build_context\<close> returned the context \<open>ctx\<close>. If the backend raises
  an exception \<open>e\<close> with \<open>str(e) = err\<close>, then \<open>_generate_response\<close> returns the text
  \<open>Error generating response: err\<close>, \<open>_process_channel\<close> goes on to send exactly this
  text to the same channel (the request is written to the child), no exception leaves
  \<open>_process_channel\<close> (what \<open>send_message\<close> may raise is caught by its handler), and for a
  bot that watches this channel the polling loop carries on with its remaining cycles.
\<close>

theorem generation_failure_degrades:
  assumes fetched: "with_mcp (get_messages E c 100) b = (Inr (JArr ms), b1)" "ms \<noteq> []"
      and key: "msg_key E c (last ms) = Inr k" "k \<notin> processed_messages b1"
      and content: "getitem (last ms) ''content'' = Inr (JStr s)" "startswith s (trigger cfg)"
      and author: "getitem (last ms) ''author'' = Inr a"
      and built: "build_context E cfg c (butlast ms @ [stripped_message E cfg (last ms) s]) b1 =
                    (Inr ctx, b2)"
      and failed: "ollama_chat E (model cfg) ctx (context_window cfg) = Inl err"
      and client: "mcp b2 = Some cl" "process cl = Some p"
  shows "generate_response E cfg ctx = ''Error generating response: '' @ err \<and>
         process_channel E cfg c b =
           (case with_mcp (send_message E c (''Error generating response: '' @ err)) b2 of
              (Inl e, b3) \<Rightarrow> (Some e, b3)
            | (Inr sent, b3) \<Rightarrow> (None, b3)) \<and>
         bot_written (snd (process_channel E cfg c b)) =
           bot_written b2 @
             [reply_request (request_id cl + 1) c (''Error generating response: '' @ err)] \<and>
         (channels cfg = [c] \<and> py_strip E c = c \<and> c \<noteq> [] \<longrightarrow>
            poll_cycles E cfg (Suc n) b =
              poll_cycles E cfg n
                (snd (with_mcp (send_message E c (''Error generating response: '' @ err)) b2)))"
proof -
  let ?reply = "''Error generating response: '' @ err"
  have g: "generate_response E cfg ctx = ?reply"
    using failed by (simp add: generate_response_def)
  have pc: "process_channel E cfg c b =
           (case with_mcp (send_message E c ?reply) b2 of
              (Inl e, b3) \<Rightarrow> (Some e, b3)
            | (Inr sent, b3) \<Rightarrow> (None, b3))"
    using process_channel_triggered [OF fetched key content(1), of cfg] content(2)
          respond_built [OF author content(1) built] g
    by simp
  have st: "snd (process_channel E cfg c b) = snd (with_mcp (send_message E c ?reply) b2)"
    unfolding pc by (simp split: prod.splits sum.splits)
  show ?thesis
    using g pc st send_written [OF client, of E c ?reply]
    by (simp add: single_channel_cycle)
qed

lemma fetched_bot_store [simp]:
  "processed_messages (fetched_bot rest) = {}" "history (fetched_bot rest) c = []"
  by (simp_all add: fetched_bot_def new_bot_def history_def)

lemma sample_payload:
  assumes "json_loads E = sample_loads"
  shows "and_then (decode_response E (result_line hello_text))
           (\<lambda>result. inner_payload E result ''messages'') =
         Inr (JArr [message ''1'' ''alice'' ''hello''])"
    and "and_then (decode_response E (result_line ask_text))
           (\<lambda>result. inner_payload E result ''messages'') =
         Inr (JArr [message ''2'' ''bob'' ''!ai what time is it''])"
  using assms
  by (simp_all add: decode_response_def inner_payload_def inner_text_def loads_value_def
        sample_loads_def tool_result_def ok_line_def hello_text_def ask_text_def none_text_def
        payload_text_def result_line_def quoted_def escaped_def message_text_def and_then_def)

lemma sample_fetch:
  "with_mcp (get_messages E ''42'' 100) (sample_bot (line # rest)) =
     (and_then (decode_response E line) (\<lambda>result. inner_payload E result ''messages''),
      fetched_bot rest)"
  using fetch_reply [where b = "sample_bot (line # rest)" and p = "child (line # rest)"
          and line = line and rest = rest and E = E and c = "''42''" and lim = 100]
  by (simp add: sample_bot_def child_def fetched_bot_def new_bot_def)

lemma sample_stripped:
  "py_strip E = ascii_strip \<Longrightarrow>
   stripped_content E sample_config ''!ai what time is it'' = ''what time is it''"
  by (simp add: stripped_content_def sample_config_def ascii_strip_def ascii_space_def)

lemma failing_strip: "py_strip failing_env = ascii_strip"
  by (simp add: failing_env_def sample_env_def)

lemma sample_inv: "channel_inv E c (sample_bot lines)"
  by (simp add: channel_inv_def sample_bot_def new_bot_def history_def)

lemma failing_loads: "json_loads failing_env = sample_loads"
  by (simp add: failing_env_def sample_env_def)

theorem generation_failure_degrades_witness:
  "bot_written (snd (process_channel failing_env sample_config ''42''
                       (sample_bot [result_line ask_text, ok_line]))) =
     [fetch_request 1 ''42'' 100,
      reply_request 2 ''42'' ''Error generating response: connection refused'']"
proof -
  let ?ask = "message ''2'' ''bob'' ''!ai what time is it''"
  let ?m1 = "stripped_message failing_env sample_config ?ask ''!ai what time is it''"
  let ?b1 = "fetched_bot [ok_line]"
  let ?b2 = "store ''42'' ?m1 ''42:2'' (init_history ''42'' ?b1)"
  let ?ctx = "context_of failing_env sample_config [message ''2'' ''bob'' ''what time is it'']"
  have fetch: "with_mcp (get_messages failing_env ''42'' 100)
                 (sample_bot [result_line ask_text, ok_line]) = (Inr (JArr [?ask]), ?b1)"
    using sample_fetch [of failing_env "result_line ask_text" "[ok_line]"]
          sample_payload(2) [OF failing_loads]
    by simp
  have ne: "[?ask] \<noteq> []" by simp
  have key: "msg_key failing_env ''42'' (last [?ask]) = Inr ''42:2''"
    by (simp add: message_def msg_key_def and_then_def fstr_def)
  have fresh: "''42:2'' \<notin> processed_messages ?b1"
    by (simp add: fetched_bot_def new_bot_def)
  have content: "getitem (last [?ask]) ''content'' = Inr (JStr ''!ai what time is it'')"
    and author: "getitem (last [?ask]) ''author'' = Inr (JStr ''bob'')"
    by (simp_all add: message_def)
  have trig: "startswith ''!ai what time is it'' (trigger sample_config)"
    by (simp add: startswith_def sample_config_def)
  have m1: "?m1 = message ''2'' ''bob'' ''what time is it''"
    by (simp add: stripped_message_def sample_stripped [OF failing_strip] message_def)
  have built0: "build_context failing_env sample_config ''42''
                 [message ''2'' ''bob'' ''what time is it''] ?b1 =
                 (Inr ?ctx, store ''42'' (message ''2'' ''bob'' ''what time is it'') ''42:2''
                              (init_history ''42'' ?b1))"
    by (simp add: build_context_def ingest_def msg_key_def and_then_def fstr_def message_def
          render_context_def render_message_def context_of_def attributed_line_def field_def)
  have built: "build_context failing_env sample_config ''42''
                 (butlast [?ask] @ [stripped_message failing_env sample_config (last [?ask])
                                      ''!ai what time is it'']) ?b1 = (Inr ?ctx, ?b2)"
    using built0 m1 by simp
  have failed: "ollama_chat failing_env (model sample_config) ?ctx (context_window sample_config)
                  = Inl ''connection refused''"
    by (simp add: failing_env_def)
  have client: "mcp ?b2 = Some \<lparr>process = Some \<lparr>stdin_written = [fetch_request 1 ''42'' 100],
                                           stdin_lost = False, stdout_lines = [ok_line],
                                           terminated = False\<rparr>,
                          request_id = 1\<rparr>"
    "process \<lparr>process = Some \<lparr>stdin_written = [fetch_request 1 ''42'' 100],
                                           stdin_lost = False, stdout_lines = [ok_line],
                                           terminated = False\<rparr>,
                          request_id = 1\<rparr> =
       Some \<lparr>stdin_written = [fetch_request 1 ''42'' 100],
                                           stdin_lost = False, stdout_lines = [ok_line],
                                           terminated = False\<rparr>"
    by (simp_all add: fetched_bot_def init_history_def)
  have "bot_written (snd (process_channel failing_env sample_config ''42''
                       (sample_bot [result_line ask_text, ok_line]))) =
          bot_written ?b2 @
            [reply_request (1 + 1) ''42'' (''Error generating response: '' @ ''connection refused'')]"
    using generation_failure_degrades [OF fetch ne key fresh content trig author built failed
            client, where n = 0, THEN conjunct2, THEN conjunct2, THEN conjunct1]
    by simp
  moreover have "bot_written ?b2 = [fetch_request 1 ''42'' 100]"
    using client(1) by (simp add: bot_written_def written_def)
  ultimately show ?thesis by simp
qed

section \<open>C9: shutdown\<close>

lemma started_process_channel: "started b \<Longrightarrow> started (snd (process_channel E cfg c b))"
proof (rule process_channel_keeps [where Q = started])
  fix b cl call
  assume "started b" and "mcp b = Some cl"
  then have "process cl \<noteq> None" by (auto simp: started_def split: option.splits)
  then have "process (perform E cl call) \<noteq> None" using perform_effect by blast
  then show "started (b\<lparr>mcp := Some (perform E cl call)\<rparr>)"
    by (auto simp: started_def)
qed (simp_all add: started_def store_def init_history_def mark_processed_def)

lemma started_poll_cycles: "started b \<Longrightarrow> started (poll_cycles E cfg n b)"
proof (rule poll_cycles_keeps [where Q = started])
  fix b cl call
  assume "started b" and "mcp b = Some cl"
  then have "process cl \<noteq> None" by (auto simp: started_def split: option.splits)
  then have "process (perform E cl call) \<noteq> None" using perform_effect by blast
  then show "started (b\<lparr>mcp := Some (perform E cl call)\<rparr>)"
    by (auto simp: started_def)
qed (simp_all add: started_def store_def init_history_def mark_processed_def)

lemma stop_started: "started b \<Longrightarrow> child_terminated (stop_mcp b)"
  by (auto simp: started_def child_terminated_def stop_mcp_def stop_def split: option.splits)

lemma stop_keeps_terminated: "child_terminated b \<Longrightarrow> child_terminated (stop_mcp b)"
  by (auto simp: child_terminated_def stop_mcp_def stop_def split: option.splits)

lemma initialize_started:
  assumes "ollama_check E = None" and "spawn E = Inr p"
  shows "initialize E new_bot =
           (Inr (), new_bot\<lparr>mcp := Some \<lparr>process = Some p, request_id = 0\<rparr>\<rparr>)"
  using assms by (simp add: initialize_def start_def new_client_def)

lemma polling_path_stops:
  assumes "channels cfg \<noteq> []" and "channels cfg \<noteq> [[]]"
      and "ollama_check E = None" and "spawn E = Inr p"
  shows "child_terminated (snd (main E cfg n sig))"
proof -
  let ?b = "new_bot\<lparr>mcp := Some \<lparr>process = Some p, request_id = 0\<rparr>\<rparr>"
  have "started ?b" by (simp add: started_def)
  then have "started (poll_cycles E cfg n ?b)" by (rule started_poll_cycles)
  then have "child_terminated (stop_mcp (poll_cycles E cfg n ?b))" by (rule stop_started)
  then show ?thesis
    using assms initialize_started [OF assms(3,4)]
    by (cases sig) (simp_all add: main_def run_def)
qed

lemma listing_raises_stops:
  assumes "channels cfg = [] \<or> channels cfg = [[]]"
      and "ollama_check E = None" and "spawn E = Inr p"
      and "fst (main E cfg n sig) = Raised e"
  shows "child_terminated (snd (main E cfg n sig))"
proof -
  let ?b = "new_bot\<lparr>mcp := Some \<lparr>process = Some p, request_id = 0\<rparr>\<rparr>"
  obtain out b2 where r: "run E cfg n sig ?b = (out, b2)" by fastforce
  have "started ?b" by (simp add: started_def)
  moreover have "b2 = snd (with_mcp (list_channels E) ?b)"
    using assms(1) r by (auto simp: run_def split: prod.splits sum.splits option.splits)
  moreover have "snd (with_mcp (list_channels E) ?b) =
                   ?b\<lparr>mcp := Some (perform E \<lparr>process = Some p, request_id = 0\<rparr> ListChannels)\<rparr>"
    by (simp add: with_mcp_snd)
  moreover have "process (perform E \<lparr>process = Some p, request_id = 0\<rparr> ListChannels) \<noteq> None"
    using perform_effect [of "\<lparr>process = Some p, request_id = 0\<rparr>" E ListChannels] by simp
  ultimately have "started b2" by (auto simp: started_def)
  then have "child_terminated (stop_mcp b2)" by (rule stop_started)
  then show ?thesis
    using assms(4) r initialize_started [OF assms(2,3)]
    by (cases out) (simp_all add: main_def)
qed

text \<open>
  Claim C9 says that \<open>stop()\<close> is invoked on every exit path, the bootstrap path that
  lists the channels and returns among them. The two lemmas above show that the polling
  path and the failing bootstrap path do stop the child. The bootstrap path that succeeds
  does not: with no channel configured and a child that answers the listing, \<open>main\<close>
  returns normally, whatever the interrupt and the number of cycles, after one request,
  and the child has not been sent the termination signal.
\<close>

theorem bootstrap_leaves_child_running:
  "fst (main listing_env unconfigured n sig) = Returned \<and>
   \<not> child_terminated (snd (main listing_env unconfigured n sig)) \<and>
   bot_written (snd (main listing_env unconfigured n sig)) = [list_request 1]"
proof -
  let ?c = "\<lparr>process = Some (child [ok_line]), request_id = 0\<rparr>"
  let ?b = "new_bot\<lparr>mcp := Some ?c\<rparr>"
  have init: "initialize listing_env new_bot = (Inr (), ?b)"
    by (rule initialize_started) (simp_all add: listing_env_def sample_env_def)
  have dec: "decode_response listing_env ok_line = Inr (JObj [])"
    using sample_decode_ok by (simp add: decode_response_def listing_env_def)
  have loads: "json_loads listing_env ''{}'' = Some (JObj [])"
    using sample_loads_empty_object by (simp add: listing_env_def)
  have "list_channels listing_env ?c =
          (Inr (JArr []),
           \<lparr>process = Some ((child [ok_line])
              \<lparr>stdin_written := stdin_written (child [ok_line]) @ [list_request (0 + 1)],
               stdout_lines := []\<rparr>),
            request_id = 0 + 1\<rparr>)"
    using send_request_reply [of ?c "child [ok_line]" ok_line "[]" listing_env]
          inner_payload_default [OF loads, of "JObj []" "''channels''"] dec
    by (simp add: list_channels_def call_tool_def child_def list_request_def lacks_content_def)
  then have "run listing_env unconfigured n sig ?b =
               (Returned,
                ?b\<lparr>mcp := Some \<lparr>process = Some ((child [ok_line])
                    \<lparr>stdin_written := stdin_written (child [ok_line]) @ [list_request (0 + 1)],
                     stdout_lines := []\<rparr>),
                  request_id = 0 + 1\<rparr>\<rparr>)"
    by (simp add: run_def unconfigured_def with_mcp_def)
  then show ?thesis
    using init
    by (simp add: main_def child_terminated_def bot_written_def written_def child_def)
qed

end
